theory Spec2Isabelle
  imports Complex_Main
begin

section \<open>Service calls (services/geminiService.ts)\<close>

text \<open>
  The hosted model is an external collaborator. Each awaited call of the SDK either
  resolves with a response or rejects with an error; the backend is a parameter of
  every service function, so that each theorem holds for whatever the backend answers.
\<close>

datatype js_error = Error string | TypeError string

datatype 'a awaited = Resolves 'a | Rejects js_error

subsection \<open>generateImage\<close>

record imageConfig =
  numberOfImages :: nat
  outputMimeType :: string
  aspectRatio :: string

record generateImagesParameters =
  gi_model :: string
  gi_prompt :: string
  gi_config :: imageConfig

text \<open>
  The response types of the SDK: every field is optional. \<open>None\<close> is JavaScript's
  \<open>undefined\<close>.
\<close>

record image =
  imageBytes :: "string option"

record generatedImage =
  gi_image :: "image option"

record generateImagesResponse =
  generatedImages :: "generatedImage list option"

definition data_url_prefix :: string where
  "data_url_prefix = ''data:image/jpeg;base64,''"

text \<open>
  The arrow function passed to \<open>map\<close>: reading \<open>imageBytes\<close> of an absent
  \<open>image\<close> throws a TypeError; an absent \<open>imageBytes\<close> is interpolated as the text
  \<open>undefined\<close>.
\<close>

definition data_url :: "generatedImage \<Rightarrow> js_error + string" where
  "data_url img =
     (case gi_image img of
        None \<Rightarrow> Inl (TypeError ''Cannot read properties of undefined (reading 'imageBytes')'')
      | Some im \<Rightarrow>
          Inr (data_url_prefix @ (case imageBytes im of None \<Rightarrow> ''undefined'' | Some b \<Rightarrow> b)))"

text \<open>\<open>Array.prototype.map\<close> with a callback that may throw: the first throw ends it.\<close>

fun map_throwing :: "('a \<Rightarrow> js_error + 'b) \<Rightarrow> 'a list \<Rightarrow> js_error + 'b list" where
  "map_throwing f [] = Inr []"
| "map_throwing f (x # xs) =
     (case f x of
        Inl e \<Rightarrow> Inl e
      | Inr y \<Rightarrow> (case map_throwing f xs of Inl e \<Rightarrow> Inl e | Inr ys \<Rightarrow> Inr (y # ys)))"

text \<open>The argument of \<open>ai.models.generateImages\<close>.\<close>

definition image_request :: "string \<Rightarrow> string \<Rightarrow> generateImagesParameters" where
  "image_request prompt ratio =
     \<lparr>gi_model = ''imagen-4.0-generate-001'', gi_prompt = prompt,
      gi_config = \<lparr>numberOfImages = 2, outputMimeType = ''image/jpeg'', aspectRatio = ratio\<rparr>\<rparr>"

definition generateImage ::
  "(generateImagesParameters \<Rightarrow> generateImagesResponse awaited) \<Rightarrow> string \<Rightarrow> string
     \<Rightarrow> js_error + string list" where
  "generateImage generateImages prompt ratio =
     (case generateImages (image_request prompt ratio) of
        Rejects e \<Rightarrow> Inl e
      | Resolves response \<Rightarrow>
          (case generatedImages response of
             None \<Rightarrow> Inl (Error ''No images generated'')
           | Some imgs \<Rightarrow> map_throwing data_url imgs))"

subsection \<open>refinePromptWithSearch\<close>

record generateContentParameters =
  gc_model :: string
  gc_contents :: string
  gc_googleSearch :: bool

record generateContentResponse =
  text_of :: "string option"

definition newline :: string where
  "newline = [CHR 0x0A]"

definition dquote :: string where
  "dquote = [CHR 0x22]"

definition refine_contents :: "string \<Rightarrow> string" where
  "refine_contents originalPrompt =
     ''You are an expert prompt engineer for AI image generation. '' @ newline @
     ''      The user wants an image based on this idea: '' @ dquote @ originalPrompt @ dquote
       @ ''.'' @ newline @
     ''      '' @ newline @
     ''      1. Use Google Search to find accurate details (dates, visual styles, '' @
     ''accurate descriptions of people/places) if the prompt implies specific real-world '' @
     ''entities.'' @ newline @
     ''      2. Rewrite the prompt to be highly descriptive, visual, and artistic.'' @ newline @
     ''      3. Return ONLY the refined prompt text. Do not include explanations.''"

text \<open>JavaScript's \<open>a || b\<close> on an optional string: \<open>undefined\<close> and \<open>""\<close> are falsy.\<close>

definition or_else :: "string option \<Rightarrow> string \<Rightarrow> string" where
  "or_else a b = (case a of None \<Rightarrow> b | Some t \<Rightarrow> if t = [] then b else t)"

text \<open>The argument of \<open>ai.models.generateContent\<close>.\<close>

definition refine_request :: "string \<Rightarrow> generateContentParameters" where
  "refine_request originalPrompt =
     \<lparr>gc_model = ''gemini-2.5-flash'', gc_contents = refine_contents originalPrompt,
      gc_googleSearch = True\<rparr>"

definition refinePromptWithSearch ::
  "(generateContentParameters \<Rightarrow> generateContentResponse awaited) \<Rightarrow> string
     \<Rightarrow> js_error + string" where
  "refinePromptWithSearch generateContent originalPrompt =
     (case generateContent (refine_request originalPrompt) of
        Rejects e \<Rightarrow> Inr originalPrompt
      | Resolves response \<Rightarrow> Inr (or_else (text_of response) originalPrompt))"

section \<open>The voice assistant component (VoiceAssistant)\<close>

text \<open>
  The component keeps its mutable state in React refs and one piece of React state
  (\<open>connectionStatus\<close>). The model is a record of these, together with the objects the
  refs point to (the audio source nodes, the session promises), the queue of promise
  reactions that are ready to run, and the list of calls made on external objects, in
  the order they are made.

  Times are JavaScript numbers. The model is polymorphic in the type of times: any
  linear order with an addition and a zero. No law of addition is used anywhere, so
  the rounding of floating-point addition does not matter to the theorems. The times
  the component reads (\<open>currentTime\<close>, the duration of a buffer) are numbers, never NaN.
\<close>

datatype status = Disconnected | Connecting | Connected

text \<open>The two reactions the component registers on the session promise with \<open>then\<close>.\<close>

datatype 'b reaction = SendRealtimeInput 'b | Close

datatype promise_state = Pending | Fulfilled | Rejected

text \<open>A session promise, as returned by \<open>connectLiveSession\<close>, with the reactions waiting
  for it to settle.\<close>

record 'b sessionPromise =
  p_state :: promise_state
  p_reactions :: "'b reaction list"

text \<open>An \<open>AudioBufferSourceNode\<close>: the time given to \<open>start\<close>, the duration of its
  buffer, and whether \<open>stop\<close> has been called on it.\<close>

record 't sourceNode =
  n_when :: 't
  n_duration :: 't
  n_stopped :: bool

text \<open>Calls on external objects, and calls of the props \<open>onTranscript\<close> and
  \<open>onToggleListening\<close>.\<close>

datatype 'b effect =
    InputContextClose
  | TracksStop
  | ProcessorDisconnect
  | NodeStart nat
  | NodeStop nat
  | OutputContextCreate
  | OutputContextClose
  | SessionSend nat 'b
  | SessionClose nat
  | OnTranscript string
  | OnToggleListening

record ('t, 'b) voiceAssistant =
  connectionStatus :: status
  sessionRef :: "nat option"
  audioContextInputRef :: bool
  audioContextOutputRef :: bool
  streamRef :: bool
  processorRef :: "nat option"
  nextStartTimeRef :: 't
  sourceNodesRef :: "nat list"
  nodes :: "'t sourceNode list"
  sessions :: "'b sessionPromise list"
  microtasks :: "(nat \<times> 'b reaction) list"
  effects :: "'b effect list"

text \<open>
  \<open>sessionRef\<close> is \<open>None\<close> for null and otherwise the index of a promise in
  \<open>sessions\<close>; the boolean refs say whether the ref is non-null; \<open>processorRef\<close> holds the
  index of the session promise that the processor's \<open>onaudioprocess\<close> closure captured;
  \<open>sourceNodesRef\<close> is the JavaScript \<open>Set\<close> of nodes in insertion order, a node being
  its index in \<open>nodes\<close>.
\<close>

definition emit :: "'b effect \<Rightarrow> ('t, 'b) voiceAssistant \<Rightarrow> ('t, 'b) voiceAssistant" where
  "emit e s = s\<lparr>effects := effects s @ [e]\<rparr>"

subsection \<open>The JavaScript Set of source nodes\<close>

definition set_add :: "nat \<Rightarrow> nat list \<Rightarrow> nat list" where
  "set_add n ns = (if n \<in> set ns then ns else ns @ [n])"

definition set_delete :: "nat \<Rightarrow> nat list \<Rightarrow> nat list" where
  "set_delete n ns = filter (\<lambda>k. k \<noteq> n) ns"

text \<open>\<open>node.stop()\<close> on one node of the set.\<close>

definition stop_node :: "nat \<Rightarrow> ('t, 'b) voiceAssistant \<Rightarrow> ('t, 'b) voiceAssistant" where
  "stop_node n s =
     emit (NodeStop n)
       (s\<lparr>nodes := (if n < length (nodes s)
                      then (nodes s)[n := (nodes s ! n)\<lparr>n_stopped := True\<rparr>]
                      else nodes s)\<rparr>)"

text \<open>
  The three statements that both \<open>stopAudio\<close> and the interruption branch of the message
  handler end with:
  \<^verbatim>\<open>sourceNodesRef.current.forEach(node => node.stop());
  sourceNodesRef.current.clear();
  nextStartTimeRef.current = 0;\<close>
\<close>

definition flush :: "('t::zero, 'b) voiceAssistant \<Rightarrow> ('t, 'b) voiceAssistant" where
  "flush s =
     (fold stop_node (sourceNodesRef s) s)\<lparr>sourceNodesRef := [], nextStartTimeRef := 0\<rparr>"

subsection \<open>stopAudio\<close>

definition stopAudio :: "('t::zero, 'b) voiceAssistant \<Rightarrow> ('t, 'b) voiceAssistant" where
  "stopAudio s =
     (let s1 = (if audioContextInputRef s
                then (emit InputContextClose s)\<lparr>audioContextInputRef := False\<rparr> else s);
          s2 = (if streamRef s1
                then (emit TracksStop s1)\<lparr>streamRef := False\<rparr> else s1);
          s3 = (if processorRef s2 \<noteq> None
                then (emit ProcessorDisconnect s2)\<lparr>processorRef := None\<rparr> else s2)
      in flush s3)"

subsection \<open>Promises\<close>

text \<open>
  \<open>promise.then(reaction)\<close>: on a pending promise the reaction waits; on a fulfilled one
  it is queued as a microtask, to run after the current handler has returned; on a
  rejected one it never runs.
\<close>

definition promise_then ::
  "nat \<Rightarrow> 'b reaction \<Rightarrow> ('t, 'b) voiceAssistant \<Rightarrow> ('t, 'b) voiceAssistant" where
  "promise_then k r s =
     (if k < length (sessions s) then
        (case p_state (sessions s ! k) of
           Pending \<Rightarrow>
             s\<lparr>sessions := (sessions s)[k := (sessions s ! k)
                   \<lparr>p_reactions := p_reactions (sessions s ! k) @ [r]\<rparr>]\<rparr>
         | Fulfilled \<Rightarrow> s\<lparr>microtasks := microtasks s @ [(k, r)]\<rparr>
         | Rejected \<Rightarrow> s)
      else s)"

text \<open>One reaction runs: the call it makes on the session the promise resolved to.\<close>

fun reaction_call :: "nat \<times> 'b reaction \<Rightarrow> 'b effect" where
  "reaction_call (k, SendRealtimeInput b) = SessionSend k b"
| "reaction_call (k, Close) = SessionClose k"

definition run_reaction ::
  "nat \<times> 'b reaction \<Rightarrow> ('t, 'b) voiceAssistant \<Rightarrow> ('t, 'b) voiceAssistant" where
  "run_reaction r s = emit (reaction_call r) s"

text \<open>The microtask queue is drained when a handler has returned. No reaction of this
  component queues another one.\<close>

definition run_microtasks :: "('t, 'b) voiceAssistant \<Rightarrow> ('t, 'b) voiceAssistant" where
  "run_microtasks s = (fold run_reaction (microtasks s) s)\<lparr>microtasks := []\<rparr>"

text \<open>The SDK settles the session promise: its waiting reactions become microtasks, in
  the order they were registered, or are dropped when it rejects.\<close>

definition settle :: "nat \<Rightarrow> bool \<Rightarrow> ('t, 'b) voiceAssistant \<Rightarrow> ('t, 'b) voiceAssistant" where
  "settle k ok s =
     (if k < length (sessions s) \<and> p_state (sessions s ! k) = Pending then
        s\<lparr>sessions := (sessions s)[k := \<lparr>p_state = (if ok then Fulfilled else Rejected),
                                          p_reactions = []\<rparr>],
          microtasks := microtasks s @
             (if ok then map (Pair k) (p_reactions (sessions s ! k)) else [])\<rparr>
      else s)"

subsection \<open>Inbound messages\<close>

text \<open>
  What the handler reads of a message: \<open>serverContent?.inputTranscription\<close> (absent, or an
  object whose \<open>text\<close> may be absent), \<open>serverContent?.modelTurn?.parts?.[0]?.inlineData?.data\<close>
  and \<open>serverContent?.interrupted\<close>. An absent value and the empty string are the falsy
  values of the first two.
\<close>

record message =
  inputTranscription :: "string option option"
  inlineData :: "string option"
  interrupted :: bool

text \<open>
  The handler is an async function with one \<open>await\<close>. It either returns, or is suspended
  at the \<open>await\<close> holding the payload it is decoding, or ends with an exception (its
  promise rejects; the state it has written stays).
\<close>

datatype ('t, 'b) handler =
    Returned (final: "('t, 'b) voiceAssistant")
  | Awaiting (final: "('t, 'b) voiceAssistant") (payload: string)
  | Threw (final: "('t, 'b) voiceAssistant")

definition transcription_branch ::
  "message \<Rightarrow> ('t, 'b) voiceAssistant \<Rightarrow> ('t, 'b) voiceAssistant" where
  "transcription_branch m s =
     (case inputTranscription m of
        None \<Rightarrow> s
      | Some None \<Rightarrow> s
      | Some (Some txt) \<Rightarrow> if txt \<noteq> [] then emit (OnTranscript txt) s else s)"

definition interruption_branch ::
  "message \<Rightarrow> ('t::zero, 'b) voiceAssistant \<Rightarrow> ('t, 'b) voiceAssistant" where
  "interruption_branch m s = (if interrupted m then flush s else s)"

text \<open>
  The handler up to the \<open>await\<close>; \<open>now\<close> is \<open>ctx.currentTime\<close> as read there. Without a
  payload or without an output context the audio branch is skipped and the handler
  runs to its end.
\<close>

definition onMessage_begin ::
  "('t::{linorder,zero}, 'b) voiceAssistant \<Rightarrow> 't \<Rightarrow> message \<Rightarrow> ('t, 'b) handler" where
  "onMessage_begin s now m =
     (let s1 = transcription_branch m s in
      case inlineData m of
        None \<Rightarrow> Returned (interruption_branch m s1)
      | Some base64Audio \<Rightarrow>
          if base64Audio \<noteq> [] \<and> audioContextOutputRef s1
          then Awaiting (s1\<lparr>nextStartTimeRef := max (nextStartTimeRef s1) now\<rparr>) base64Audio
          else Returned (interruption_branch m s1))"

text \<open>
  The handler from the \<open>await\<close> on, in whatever state the component is by then. The
  decoding (\<open>base64ToUint8Array\<close> and \<open>decodeAudioData\<close>, of utils/audioUtils) is not part
  of these sources: its outcome is a parameter, \<open>None\<close> when it fails and otherwise the
  duration of the decoded buffer, the one attribute of the buffer the handler reads.
  The node is created on the context captured before the \<open>await\<close>, so the ref is not
  read again.
\<close>

definition onMessage_resume ::
  "('t::{plus,zero}, 'b) voiceAssistant \<Rightarrow> message \<Rightarrow> 't option \<Rightarrow> ('t, 'b) handler" where
  "onMessage_resume s m decoded =
     (case decoded of
        None \<Rightarrow> Threw s
      | Some d \<Rightarrow>
          (let n = length (nodes s);
               s1 = s\<lparr>nodes := nodes s @
                        [\<lparr>n_when = nextStartTimeRef s, n_duration = d, n_stopped = False\<rparr>]\<rparr>;
               s2 = emit (NodeStart n) s1;
               s3 = s2\<lparr>nextStartTimeRef := nextStartTimeRef s2 + d\<rparr>;
               s4 = s3\<lparr>sourceNodesRef := set_add n (sourceNodesRef s3)\<rparr>
           in Returned (interruption_branch m s4)))"

text \<open>The listener for \<open>ended\<close> that the handler registers on the node.\<close>

definition ended :: "nat \<Rightarrow> ('t, 'b) voiceAssistant \<Rightarrow> ('t, 'b) voiceAssistant" where
  "ended n s = s\<lparr>sourceNodesRef := set_delete n (sourceNodesRef s)\<rparr>"

text \<open>The whole handler on one message, when nothing else runs while it decodes.\<close>

definition onMessage ::
  "(string \<Rightarrow> 't option) \<Rightarrow> ('t::{linorder,plus,zero}, 'b) voiceAssistant \<Rightarrow> 't \<Rightarrow> message
     \<Rightarrow> ('t, 'b) handler" where
  "onMessage decode s now m =
     (case onMessage_begin s now m of
        Awaiting s1 p \<Rightarrow> onMessage_resume s1 m (decode p)
      | h \<Rightarrow> h)"

text \<open>Messages handled one after the other, each read at its own time. A handler that
  ends with an exception does not stop the next message from being handled.\<close>

fun onMessages ::
  "(string \<Rightarrow> 't option) \<Rightarrow> ('t::{linorder,plus,zero}, 'b) voiceAssistant
     \<Rightarrow> ('t \<times> message) list \<Rightarrow> ('t, 'b) voiceAssistant" where
  "onMessages decode s [] = s"
| "onMessages decode s ((now, m) # ms) = onMessages decode (final (onMessage decode s now m)) ms"

text \<open>
  When the handlers of several messages overlap, the event loop runs their parts in
  some order: a message arrives and its handler runs up to the \<open>await\<close>; a decoding
  completes and the handler of its message runs on; a node ends and its listener runs.
\<close>

datatype 't step = Arrives 't message | Decoded message 't | Ends nat

fun steps ::
  "('t::{linorder,plus,zero}, 'b) voiceAssistant \<Rightarrow> 't step list \<Rightarrow> ('t, 'b) voiceAssistant" where
  "steps s [] = s"
| "steps s (Arrives now m # xs) = steps (final (onMessage_begin s now m)) xs"
| "steps s (Decoded m d # xs) = steps (final (onMessage_resume s m (Some d))) xs"
| "steps s (Ends n # xs) = steps (ended n s) xs"

subsection \<open>The other session callbacks\<close>

definition onOpen :: "('t, 'b) voiceAssistant \<Rightarrow> ('t, 'b) voiceAssistant" where
  "onOpen s = s\<lparr>connectionStatus := Connected\<rparr>"

definition onError :: "('t, 'b) voiceAssistant \<Rightarrow> ('t, 'b) voiceAssistant" where
  "onError s = emit OnToggleListening (s\<lparr>connectionStatus := Disconnected\<rparr>)"

definition onClose :: "('t, 'b) voiceAssistant \<Rightarrow> ('t, 'b) voiceAssistant" where
  "onClose s = s\<lparr>connectionStatus := Disconnected\<rparr>"

subsection \<open>startSession and the microphone frames\<close>

text \<open>
  \<open>getUserMedia\<close> is awaited inside the \<open>try\<close>; \<open>granted\<close> says whether it resolves. The
  session promise is not awaited: a failing connection rejects the promise later and
  does not reach the \<open>catch\<close>.
\<close>

definition startSession :: "bool \<Rightarrow> ('t, 'b) voiceAssistant \<Rightarrow> ('t, 'b) voiceAssistant" where
  "startSession granted s =
     (let s1 = s\<lparr>connectionStatus := Connecting\<rparr>;
          s2 = (if \<not> audioContextOutputRef s1
                then (emit OutputContextCreate s1)\<lparr>audioContextOutputRef := True\<rparr> else s1);
          s3 = s2\<lparr>audioContextInputRef := True\<rparr>
      in if granted then
           (let k = length (sessions s3) in
            s3\<lparr>streamRef := True, processorRef := Some k,
               sessions := sessions s3 @ [\<lparr>p_state = Pending, p_reactions = []\<rparr>],
               sessionRef := Some k\<rparr>)
         else emit OnToggleListening (s3\<lparr>connectionStatus := Disconnected\<rparr>))"

text \<open>
  \<open>processor.onaudioprocess\<close> of the processor whose closure captured session promise
  \<open>k\<close>. \<open>createAudioBlob\<close> (of utils/audioUtils) is a parameter.
\<close>

definition onaudioprocess ::
  "('f \<Rightarrow> 'b) \<Rightarrow> nat \<Rightarrow> 'f \<Rightarrow> ('t, 'b) voiceAssistant \<Rightarrow> ('t, 'b) voiceAssistant" where
  "onaudioprocess createAudioBlob k inputData s =
     promise_then k (SendRealtimeInput (createAudioBlob inputData)) s"

subsection \<open>The effects of the component\<close>

text \<open>
  The toggle effect runs when \<open>isListening\<close> has changed; \<open>connectionStatus\<close> is the value
  of the render it runs in.
\<close>

definition toggleEffect ::
  "bool \<Rightarrow> bool \<Rightarrow> ('t::zero, 'b) voiceAssistant \<Rightarrow> ('t, 'b) voiceAssistant" where
  "toggleEffect granted isListening s =
     (if isListening \<and> connectionStatus s = Disconnected then startSession granted s
      else if \<not> isListening \<and> connectionStatus s = Connected then
        (let s1 = stopAudio s;
             s2 = (case sessionRef s1 of
                     None \<Rightarrow> s1
                   | Some k \<Rightarrow> (promise_then k Close s1)\<lparr>sessionRef := None\<rparr>)
         in s2\<lparr>connectionStatus := Disconnected\<rparr>)
      else s)"

text \<open>The cleanup function of the mount effect.\<close>

definition unmountCleanup :: "('t::zero, 'b) voiceAssistant \<Rightarrow> ('t, 'b) voiceAssistant" where
  "unmountCleanup s =
     (let s1 = stopAudio s;
          s2 = (case sessionRef s1 of None \<Rightarrow> s1 | Some k \<Rightarrow> promise_then k Close s1)
      in if audioContextOutputRef s2 then emit OutputContextClose s2 else s2)"

text \<open>A handler as the event loop runs it: the handler, then the microtasks it left.\<close>

definition event ::
  "(('t, 'b) voiceAssistant \<Rightarrow> ('t, 'b) voiceAssistant) \<Rightarrow> ('t, 'b) voiceAssistant
     \<Rightarrow> ('t, 'b) voiceAssistant" where
  "event h s = run_microtasks (h s)"

text \<open>The component as mounted: every ref at its initial value.\<close>

definition mounted :: "('t::zero, 'b) voiceAssistant" where
  "mounted =
     \<lparr>connectionStatus = Disconnected, sessionRef = None, audioContextInputRef = False,
      audioContextOutputRef = False, streamRef = False, processorRef = None,
      nextStartTimeRef = 0, sourceNodesRef = [], nodes = [], sessions = [],
      microtasks = [], effects = []\<rparr>"

subsection \<open>Vocabulary of the statements\<close>

text \<open>The duration of the audio fragment a message carries, if it carries one that
  decodes.\<close>

definition fragment_duration :: "(string \<Rightarrow> 't option) \<Rightarrow> message \<Rightarrow> 't option" where
  "fragment_duration decode m =
     (case inlineData m of None \<Rightarrow> None | Some p \<Rightarrow> if p = [] then None else decode p)"

text \<open>A list of timed messages each of which carries an audio fragment that decodes, and
  none of which carries the interruption signal.\<close>

definition fragments :: "(string \<Rightarrow> 't option) \<Rightarrow> ('t \<times> message) list \<Rightarrow> bool" where
  "fragments decode ms =
     list_all (\<lambda>(now, m). fragment_duration decode m \<noteq> None \<and> \<not> interrupted m) ms"

text \<open>A step whose message does not carry the interruption signal.\<close>

fun quiet :: "'t step \<Rightarrow> bool" where
  "quiet (Arrives now m) = (\<not> interrupted m)"
| "quiet (Decoded m d) = (\<not> interrupted m)"
| "quiet (Ends n) = True"

text \<open>Handles in the order they were started, none starting before the cursor \<open>c\<close> or
  before the end of the one started before it.\<close>

fun gapless :: "'t::{linorder,plus} \<Rightarrow> 't sourceNode list \<Rightarrow> bool" where
  "gapless c [] = True"
| "gapless c (h # hs) = (c \<le> n_when h \<and> gapless (n_when h + n_duration h) hs)"

text \<open>The end of the last of them, or \<open>c\<close> when there is none.\<close>

fun end_of :: "'t::plus \<Rightarrow> 't sourceNode list \<Rightarrow> 't" where
  "end_of c [] = c"
| "end_of c (h # hs) = end_of (n_when h + n_duration h) hs"

text \<open>Every handle of the active set is a node of the store.\<close>

definition active_nodes_exist :: "('t, 'b) voiceAssistant \<Rightarrow> bool" where
  "active_nodes_exist s = list_all (\<lambda>n. n < length (nodes s)) (sourceNodesRef s)"


text \<open>Microphone frames captured one after the other by the processor bound to session
  promise \<open>k\<close>, each in an event of its own.\<close>

fun capture ::
  "('f \<Rightarrow> 'b) \<Rightarrow> nat \<Rightarrow> 'f list \<Rightarrow> ('t, 'b) voiceAssistant \<Rightarrow> ('t, 'b) voiceAssistant" where
  "capture createAudioBlob k [] s = s"
| "capture createAudioBlob k (f # fs) s =
     capture createAudioBlob k fs (event (onaudioprocess createAudioBlob k f) s)"

text \<open>The calls that stop the capture source, for the refs that are set.\<close>

definition capture_stop_calls :: "('t, 'b) voiceAssistant \<Rightarrow> 'b effect list" where
  "capture_stop_calls s =
     (if audioContextInputRef s then [InputContextClose] else []) @
     (if streamRef s then [TracksStop] else []) @
     (if processorRef s \<noteq> None then [ProcessorDisconnect] else [])"

text \<open>The call that closes the connection, made once the session promise of
  \<open>sessionRef\<close> is fulfilled.\<close>

definition close_calls :: "('t, 'b) voiceAssistant \<Rightarrow> 'b effect list" where
  "close_calls s =
     (case sessionRef s of
        None \<Rightarrow> []
      | Some k \<Rightarrow>
          if k < length (sessions s) \<and> p_state (sessions s ! k) = Fulfilled
          then [SessionClose k] else [])"

text \<open>
  The order of teardown the specification asks for, as a rank of each call: capture
  source, then connection, then playback handles, then output context. A list of calls
  is in that order when its ranks are sorted.
\<close>

fun claimed_rank :: "'b effect \<Rightarrow> nat" where
  "claimed_rank (SessionClose k) = 1"
| "claimed_rank (NodeStop n) = 2"
| "claimed_rank OutputContextClose = 3"
| "claimed_rank e = 0"

text \<open>The order the code has: capture source, then playback handles, then output
  context, then connection.\<close>

fun teardown_rank :: "'b effect \<Rightarrow> nat" where
  "teardown_rank (NodeStop n) = 1"
| "teardown_rank OutputContextClose = 2"
| "teardown_rank (SessionClose k) = 3"
| "teardown_rank e = 0"

text \<open>The calls made since an earlier state.\<close>

definition effects_since ::
  "('t, 'b) voiceAssistant \<Rightarrow> ('t, 'b) voiceAssistant \<Rightarrow> 'b effect list" where
  "effects_since s t = drop (length (effects s)) (effects t)"

subsection \<open>Concrete inputs\<close>

text \<open>A decoder for two payloads, of one second and of a second and a half.\<close>

definition decode_example :: "string \<Rightarrow> real option" where
  "decode_example p =
     (if p = ''AAAA'' then Some 1 else if p = ''BBBBBB'' then Some (3 / 2) else None)"

definition audio_A :: message where
  "audio_A = \<lparr>inputTranscription = None, inlineData = Some ''AAAA'', interrupted = False\<rparr>"

definition audio_B :: message where
  "audio_B = \<lparr>inputTranscription = None, inlineData = Some ''BBBBBB'', interrupted = False\<rparr>"

definition interruption :: message where
  "interruption = \<lparr>inputTranscription = None, inlineData = None, interrupted = True\<rparr>"



text \<open>Fragments A and B arrive at times 10 and 10.4, and B arrives before the decoding of
  A has completed.\<close>

definition overlapping :: "real step list" where
  "overlapping =
     [Arrives 10 audio_A, Arrives (52 / 5) audio_B, Decoded audio_A 1, Decoded audio_B (3 / 2)]"

text \<open>The component after the user has toggled listening on, the microphone has been
  granted, and the connection has opened and its promise resolved.\<close>

definition listening :: "(real, string) voiceAssistant" where
  "listening = event (settle 0 True) (onOpen (toggleEffect True True mounted))"

text \<open>The same, after fragments A and B have arrived at times 10 and 10.4.\<close>

definition speaking :: "(real, string) voiceAssistant" where
  "speaking = onMessages decode_example listening [(10, audio_A), (52 / 5, audio_B)]"

text \<open>A backend that delivers one image although two were requested.\<close>

definition backend_one_image :: "generateImagesParameters \<Rightarrow> generateImagesResponse awaited" where
  "backend_one_image req =
     Resolves \<lparr>generatedImages = Some [\<lparr>gi_image = Some \<lparr>imageBytes = Some ''QUJD''\<rparr>\<rparr>]\<rparr>"

text \<open>A backend whose response has no \<open>generatedImages\<close> field.\<close>

definition backend_no_images :: "generateImagesParameters \<Rightarrow> generateImagesResponse awaited" where
  "backend_no_images req = Resolves \<lparr>generatedImages = None\<rparr>"

text \<open>A backend whose call rejects, and one that answers with an empty text.\<close>

definition backend_down :: "generateContentParameters \<Rightarrow> generateContentResponse awaited" where
  "backend_down req = Rejects (Error ''503'')"

definition backend_empty :: "generateContentParameters \<Rightarrow> generateContentResponse awaited" where
  "backend_empty req = Resolves \<lparr>text_of = Some []\<rparr>"

text \<open>The component after the user has toggled listening on and the microphone has been
  granted, the connection not yet open.\<close>

definition connecting :: "(real, string) voiceAssistant" where
  "connecting = event (toggleEffect True True) mounted"

text \<open>Fragment A arrives while the component is listening and idle; the user toggles
  listening off while it is being decoded; then the decoding completes.\<close>

definition stopped_while_decoding :: "(real, string) voiceAssistant" where
  "stopped_while_decoding =
     event (toggleEffect True False) (final (onMessage_begin listening 10 audio_A))"

definition late_decode :: "(real, string) voiceAssistant" where
  "late_decode =
     final (onMessage_resume stopped_while_decoding audio_A (decode_example ''AAAA''))"

section \<open>Properties of the service calls\<close>

lemma map_throwing_Inr:
  "map_throwing f xs = Inr ys \<Longrightarrow>
     length ys = length xs \<and> (\<forall>i<length xs. f (xs ! i) = Inr (ys ! i))"
proof (induction xs arbitrary: ys)
  case Nil
  then show ?case by simp
next
  case (Cons x xs)
  from Cons.prems obtain y zs where fx: "f x = Inr y" and rest: "map_throwing f xs = Inr zs"
    and ys: "ys = y # zs"
    by (auto split: sum.splits)
  from Cons.IH [OF rest] have len: "length zs = length xs"
    and nth: "\<forall>i<length xs. f (xs ! i) = Inr (zs ! i)" by simp_all
  show ?case
  proof (intro conjI allI impI)
    show "length ys = length (x # xs)" using len ys by simp
  next
    fix i assume "i < length (x # xs)"
    then show "f ((x # xs) ! i) = Inr (ys ! i)"
      using fx nth ys by (cases i) simp_all
  qed
qed

lemma map_throwing_total:
  "\<forall>x\<in>set xs. \<exists>y. f x = Inr y \<Longrightarrow> map_throwing f xs = Inr (map (\<lambda>x. projr (f x)) xs)"
  by (induction xs) auto

text \<open>
  Claim C10, as amended. The request asks for two images, but \<open>generateImage\<close> maps over
  whatever list the backend delivers: when it returns, it returns one string per image
  of the backend's \<open>generatedImages\<close> list, in order, each the prefix
  \<open>data:image/jpeg;base64,\<close> followed by that image's bytes (by the text \<open>undefined\<close>
  where the bytes are absent); it does return when every delivered image has its
  \<open>image\<close> field; and it throws \<open>No images generated\<close> when the response has no
  \<open>generatedImages\<close> field.
\<close>

theorem generateImage_one_url_per_backend_image:
  "numberOfImages (gi_config (image_request p r)) = 2 \<and>
   (\<forall>urls. generateImage g p r = Inr urls \<longrightarrow>
      (\<exists>resp imgs. g (image_request p r) = Resolves resp \<and> generatedImages resp = Some imgs \<and>
         length urls = length imgs \<and>
         (\<forall>i<length imgs. \<exists>im. gi_image (imgs ! i) = Some im \<and>
            urls ! i = data_url_prefix @
               (case imageBytes im of None \<Rightarrow> ''undefined'' | Some b \<Rightarrow> b)))) \<and>
   (\<forall>resp imgs. g (image_request p r) = Resolves resp \<and> generatedImages resp = Some imgs \<and>
       (\<forall>img\<in>set imgs. gi_image img \<noteq> None) \<longrightarrow>
       (\<exists>urls. generateImage g p r = Inr urls \<and> length urls = length imgs)) \<and>
   (\<forall>resp. g (image_request p r) = Resolves resp \<and> generatedImages resp = None \<longrightarrow>
       generateImage g p r = Inl (Error ''No images generated''))"
proof (intro conjI allI impI)
  show "numberOfImages (gi_config (image_request p r)) = 2"
    by (simp add: image_request_def)
next
  fix urls assume ok: "generateImage g p r = Inr urls"
  then obtain resp imgs where g: "g (image_request p r) = Resolves resp"
    and gi: "generatedImages resp = Some imgs" and mt: "map_throwing data_url imgs = Inr urls"
    by (auto simp: generateImage_def split: awaited.splits option.splits)
  from map_throwing_Inr [OF mt] have len: "length urls = length imgs"
    and nth: "\<forall>i<length imgs. data_url (imgs ! i) = Inr (urls ! i)" by simp_all
  have "\<forall>i<length imgs. \<exists>im. gi_image (imgs ! i) = Some im \<and>
            urls ! i = data_url_prefix @
               (case imageBytes im of None \<Rightarrow> ''undefined'' | Some b \<Rightarrow> b)"
  proof (intro allI impI)
    fix i assume "i < length imgs"
    with nth have "data_url (imgs ! i) = Inr (urls ! i)" by simp
    then show "\<exists>im. gi_image (imgs ! i) = Some im \<and>
            urls ! i = data_url_prefix @
               (case imageBytes im of None \<Rightarrow> ''undefined'' | Some b \<Rightarrow> b)"
      by (auto simp: data_url_def split: option.splits)
  qed
  with g gi len show "\<exists>resp imgs. g (image_request p r) = Resolves resp \<and>
         generatedImages resp = Some imgs \<and> length urls = length imgs \<and>
         (\<forall>i<length imgs. \<exists>im. gi_image (imgs ! i) = Some im \<and>
            urls ! i = data_url_prefix @
               (case imageBytes im of None \<Rightarrow> ''undefined'' | Some b \<Rightarrow> b))"
    by blast
next
  fix resp imgs
  assume a: "g (image_request p r) = Resolves resp \<and> generatedImages resp = Some imgs \<and>
       (\<forall>img\<in>set imgs. gi_image img \<noteq> None)"
  then have "\<forall>x\<in>set imgs. \<exists>y. data_url x = Inr y"
    by (auto simp: data_url_def split: option.splits)
  from map_throwing_total [OF this] a
  show "\<exists>urls. generateImage g p r = Inr urls \<and> length urls = length imgs"
    by (simp add: generateImage_def)
next
  fix resp
  assume "g (image_request p r) = Resolves resp \<and> generatedImages resp = None"
  then show "generateImage g p r = Inl (Error ''No images generated'')"
    by (simp add: generateImage_def)
qed

text \<open>The amended claim C10 at a backend that delivers one image, and at one whose
  response has no \<open>generatedImages\<close> field.\<close>

theorem generateImage_one_url_per_backend_image_witness:
  "generateImage backend_one_image ''a cat'' ''1:1'' = Inr [''data:image/jpeg;base64,QUJD''] \<and>
   (\<exists>resp imgs. backend_one_image (image_request ''a cat'' ''1:1'') = Resolves resp \<and>
       generatedImages resp = Some imgs \<and> length [''data:image/jpeg;base64,QUJD''] = length imgs) \<and>
   backend_no_images (image_request ''a cat'' ''1:1'') = Resolves \<lparr>generatedImages = None\<rparr> \<and>
   generateImage backend_no_images ''a cat'' ''1:1'' = Inl (Error ''No images generated'')"
proof -
  have run: "generateImage backend_one_image ''a cat'' ''1:1'' = Inr [''data:image/jpeg;base64,QUJD'']"
    by (simp add: generateImage_def backend_one_image_def data_url_def data_url_prefix_def)
  from generateImage_one_url_per_backend_image [of "''a cat''" "''1:1''" backend_one_image] run
  have one: "\<exists>resp imgs. backend_one_image (image_request ''a cat'' ''1:1'') = Resolves resp \<and>
       generatedImages resp = Some imgs \<and> length [''data:image/jpeg;base64,QUJD''] = length imgs"
    by blast
  have none: "backend_no_images (image_request ''a cat'' ''1:1'') =
      Resolves \<lparr>generatedImages = None\<rparr>"
    by (simp add: backend_no_images_def)
  from generateImage_one_url_per_backend_image [of "''a cat''" "''1:1''" backend_no_images] none
  have thrown: "generateImage backend_no_images ''a cat'' ''1:1'' =
      Inl (Error ''No images generated'')"
    by simp
  from run one none thrown show ?thesis by blast
qed

text \<open>
  Claim C10 as stated fails: with a backend that delivers one image, \<open>generateImage\<close>
  returns successfully, and what it returns is one string, not two.
\<close>

theorem generateImage_two_strings_counterexample:
  "generateImage backend_one_image ''a cat'' ''1:1'' = Inr [''data:image/jpeg;base64,QUJD''] \<and>
   length [''data:image/jpeg;base64,QUJD''] \<noteq> (2::nat)"
  by (simp add: generateImage_def backend_one_image_def data_url_def data_url_prefix_def)

text \<open>
  Claim C9. \<open>refinePromptWithSearch\<close> never ends with an error, whatever the backend
  does; when the backend call rejects, and when it resolves with an absent or empty
  text, the result is the original prompt, unchanged.
\<close>

theorem refinePrompt_fallback:
  "(\<exists>t. refinePromptWithSearch g p = Inr t) \<and>
   (\<forall>e. g (refine_request p) = Rejects e \<longrightarrow> refinePromptWithSearch g p = Inr p) \<and>
   (\<forall>resp. g (refine_request p) = Resolves resp \<and>
       (text_of resp = None \<or> text_of resp = Some []) \<longrightarrow>
       refinePromptWithSearch g p = Inr p)"
  by (auto simp: refinePromptWithSearch_def or_else_def split: awaited.splits)

text \<open>Claim C9 at a backend that is down and at one that answers with an empty text.\<close>

theorem refinePrompt_fallback_witness:
  "backend_down (refine_request ''a cat'') = Rejects (Error ''503'') \<and>
   refinePromptWithSearch backend_down ''a cat'' = Inr ''a cat'' \<and>
   backend_empty (refine_request ''a cat'') = Resolves \<lparr>text_of = Some []\<rparr> \<and>
   refinePromptWithSearch backend_empty ''a cat'' = Inr ''a cat''"
proof -
  have d: "backend_down (refine_request ''a cat'') = Rejects (Error ''503'')"
    by (simp add: backend_down_def)
  have e: "backend_empty (refine_request ''a cat'') = Resolves \<lparr>text_of = Some []\<rparr>"
    by (simp add: backend_empty_def)
  from refinePrompt_fallback [of backend_down "''a cat''"] d
  have 1: "refinePromptWithSearch backend_down ''a cat'' = Inr ''a cat''" by blast
  from refinePrompt_fallback [of backend_empty "''a cat''"] e
  have 2: "refinePromptWithSearch backend_empty ''a cat'' = Inr ''a cat''" by simp
  from d e 1 2 show ?thesis by simp
qed

section \<open>The scheduler state\<close>

lemma fold_stop_node_effects:
  "effects (fold stop_node ns s) = effects s @ map NodeStop ns"
  by (induction ns arbitrary: s) (simp_all add: stop_node_def emit_def)

lemma fold_stop_node_frame:
  "connectionStatus (fold stop_node ns s) = connectionStatus s"
  "sessionRef (fold stop_node ns s) = sessionRef s"
  "audioContextInputRef (fold stop_node ns s) = audioContextInputRef s"
  "audioContextOutputRef (fold stop_node ns s) = audioContextOutputRef s"
  "streamRef (fold stop_node ns s) = streamRef s"
  "processorRef (fold stop_node ns s) = processorRef s"
  "nextStartTimeRef (fold stop_node ns s) = nextStartTimeRef s"
  "sourceNodesRef (fold stop_node ns s) = sourceNodesRef s"
  "sessions (fold stop_node ns s) = sessions s"
  "microtasks (fold stop_node ns s) = microtasks s"
  by (induction ns arbitrary: s) (simp_all add: stop_node_def emit_def)

lemma fold_stop_node_length:
  "length (nodes (fold stop_node ns s)) = length (nodes s)"
  by (induction ns arbitrary: s) (simp_all add: stop_node_def emit_def)

lemma fold_stop_node_stopped:
  "n < length (nodes s) \<Longrightarrow>
     n_stopped (nodes (fold stop_node ns s) ! n) = (n \<in> set ns \<or> n_stopped (nodes s ! n))"
proof (induction ns arbitrary: s)
  case Nil
  then show ?case by simp
next
  case (Cons a ns)
  have len: "n < length (nodes (stop_node a s))"
    using Cons.prems by (simp add: stop_node_def emit_def)
  have one: "n_stopped (nodes (stop_node a s) ! n) = (n = a \<or> n_stopped (nodes s ! n))"
    using Cons.prems by (auto simp: stop_node_def emit_def nth_list_update)
  show ?case using Cons.IH [OF len] one by auto
qed

lemma fold_stop_node_when:
  "n < length (nodes s) \<Longrightarrow>
     n_when (nodes (fold stop_node ns s) ! n) = n_when (nodes s ! n) \<and>
     n_duration (nodes (fold stop_node ns s) ! n) = n_duration (nodes s ! n)"
proof (induction ns arbitrary: s)
  case Nil
  then show ?case by simp
next
  case (Cons a ns)
  have len: "n < length (nodes (stop_node a s))"
    using Cons.prems by (simp add: stop_node_def emit_def)
  have one: "n_when (nodes (stop_node a s) ! n) = n_when (nodes s ! n) \<and>
     n_duration (nodes (stop_node a s) ! n) = n_duration (nodes s ! n)"
    using Cons.prems by (auto simp: stop_node_def emit_def nth_list_update)
  show ?case using Cons.IH [OF len] one by simp
qed

lemma flush_scheduler:
  "sourceNodesRef (flush s) = []" "nextStartTimeRef (flush s) = 0"
  "length (nodes (flush s)) = length (nodes s)"
  "effects (flush s) = effects s @ map NodeStop (sourceNodesRef s)"
  by (simp_all add: flush_def fold_stop_node_length fold_stop_node_effects)

lemma flush_frame:
  "connectionStatus (flush s) = connectionStatus s"
  "sessionRef (flush s) = sessionRef s"
  "audioContextInputRef (flush s) = audioContextInputRef s"
  "audioContextOutputRef (flush s) = audioContextOutputRef s"
  "streamRef (flush s) = streamRef s"
  "processorRef (flush s) = processorRef s"
  "sessions (flush s) = sessions s"
  "microtasks (flush s) = microtasks s"
  by (simp_all add: flush_def fold_stop_node_frame)

lemma flush_stops_active:
  assumes "active_nodes_exist s" and "n \<in> set (sourceNodesRef s)"
  shows "n_stopped (nodes (flush s) ! n)"
proof -
  from assms have "n < length (nodes s)"
    by (simp add: active_nodes_exist_def list_all_iff)
  from fold_stop_node_stopped [OF this, of "sourceNodesRef s"] assms(2)
  show ?thesis by (simp add: flush_def)
qed

lemma flush_idem: "flush (flush s) = flush s"
  by (simp add: flush_def)

lemma stopAudio_alt:
  "stopAudio s =
     flush (s\<lparr>audioContextInputRef := False, streamRef := False, processorRef := None,
              effects := effects s @ capture_stop_calls s\<rparr>)"
  by (cases s) (auto simp: stopAudio_def capture_stop_calls_def emit_def Let_def)

lemma stopAudio_scheduler:
  "sourceNodesRef (stopAudio s) = []" "nextStartTimeRef (stopAudio s) = 0"
  "length (nodes (stopAudio s)) = length (nodes s)"
  "effects (stopAudio s) = effects s @ capture_stop_calls s @ map NodeStop (sourceNodesRef s)"
  by (simp_all add: stopAudio_alt flush_scheduler)

lemma stopAudio_frame:
  "connectionStatus (stopAudio s) = connectionStatus s"
  "sessionRef (stopAudio s) = sessionRef s"
  "audioContextInputRef (stopAudio s) = False"
  "audioContextOutputRef (stopAudio s) = audioContextOutputRef s"
  "streamRef (stopAudio s) = False"
  "processorRef (stopAudio s) = None"
  "sessions (stopAudio s) = sessions s"
  "microtasks (stopAudio s) = microtasks s"
  by (simp_all add: stopAudio_alt flush_frame)

lemma stopAudio_stops_active:
  assumes "active_nodes_exist s" and "n \<in> set (sourceNodesRef s)"
  shows "n_stopped (nodes (stopAudio s) ! n)"
proof -
  let ?s = "s\<lparr>audioContextInputRef := False, streamRef := False, processorRef := None,
              effects := effects s @ capture_stop_calls s\<rparr>"
  have "active_nodes_exist ?s" "n \<in> set (sourceNodesRef ?s)"
    using assms by (simp_all add: active_nodes_exist_def)
  from flush_stops_active [OF this] show ?thesis by (simp add: stopAudio_alt)
qed

lemma stopAudio_idem: "stopAudio (stopAudio s) = stopAudio s"
proof -
  have "stopAudio (stopAudio s) = flush (stopAudio s)"
    unfolding stopAudio_def [of "stopAudio s"] by (simp add: stopAudio_frame Let_def)
  also have "\<dots> = stopAudio s"
    by (simp add: stopAudio_alt flush_idem)
  finally show ?thesis .
qed

lemma fold_run_reaction_effects:
  "effects (fold run_reaction q s) = effects s @ map reaction_call q"
  by (induction q arbitrary: s) (simp_all add: run_reaction_def emit_def)

lemma fold_run_reaction_frame:
  "connectionStatus (fold run_reaction q s) = connectionStatus s"
  "sessionRef (fold run_reaction q s) = sessionRef s"
  "audioContextInputRef (fold run_reaction q s) = audioContextInputRef s"
  "audioContextOutputRef (fold run_reaction q s) = audioContextOutputRef s"
  "streamRef (fold run_reaction q s) = streamRef s"
  "processorRef (fold run_reaction q s) = processorRef s"
  "nextStartTimeRef (fold run_reaction q s) = nextStartTimeRef s"
  "sourceNodesRef (fold run_reaction q s) = sourceNodesRef s"
  "nodes (fold run_reaction q s) = nodes s"
  "sessions (fold run_reaction q s) = sessions s"
  by (induction q arbitrary: s) (simp_all add: run_reaction_def emit_def)

lemma run_microtasks_effects:
  "effects (run_microtasks s) = effects s @ map reaction_call (microtasks s)"
  by (simp add: run_microtasks_def fold_run_reaction_effects)

lemma run_microtasks_frame:
  "connectionStatus (run_microtasks s) = connectionStatus s"
  "sessionRef (run_microtasks s) = sessionRef s"
  "audioContextInputRef (run_microtasks s) = audioContextInputRef s"
  "audioContextOutputRef (run_microtasks s) = audioContextOutputRef s"
  "streamRef (run_microtasks s) = streamRef s"
  "processorRef (run_microtasks s) = processorRef s"
  "nextStartTimeRef (run_microtasks s) = nextStartTimeRef s"
  "sourceNodesRef (run_microtasks s) = sourceNodesRef s"
  "nodes (run_microtasks s) = nodes s"
  "sessions (run_microtasks s) = sessions s"
  "microtasks (run_microtasks s) = []"
  by (simp_all add: run_microtasks_def fold_run_reaction_frame)

lemma promise_then_frame:
  "connectionStatus (promise_then k r s) = connectionStatus s"
  "sessionRef (promise_then k r s) = sessionRef s"
  "audioContextInputRef (promise_then k r s) = audioContextInputRef s"
  "audioContextOutputRef (promise_then k r s) = audioContextOutputRef s"
  "streamRef (promise_then k r s) = streamRef s"
  "processorRef (promise_then k r s) = processorRef s"
  "nextStartTimeRef (promise_then k r s) = nextStartTimeRef s"
  "sourceNodesRef (promise_then k r s) = sourceNodesRef s"
  "nodes (promise_then k r s) = nodes s"
  "effects (promise_then k r s) = effects s"
  by (simp_all add: promise_then_def split: promise_state.splits)

lemma promise_then_microtasks:
  "microtasks (promise_then k r s) =
     microtasks s @
     (if k < length (sessions s) \<and> p_state (sessions s ! k) = Fulfilled then [(k, r)] else [])"
  by (simp add: promise_then_def split: promise_state.splits)

section \<open>The states used as examples\<close>

lemma listening_eq:
  "listening = \<lparr>connectionStatus = Connected, sessionRef = Some 0,
      audioContextInputRef = True, audioContextOutputRef = True, streamRef = True,
      processorRef = Some 0, nextStartTimeRef = 0, sourceNodesRef = [], nodes = [],
      sessions = [\<lparr>p_state = Fulfilled, p_reactions = []\<rparr>],
      microtasks = [], effects = [OutputContextCreate]\<rparr>"
  by (simp add: listening_def event_def settle_def onOpen_def toggleEffect_def mounted_def
      startSession_def run_microtasks_def emit_def Let_def)

lemma speaking_eq:
  "speaking = \<lparr>connectionStatus = Connected, sessionRef = Some 0,
      audioContextInputRef = True, audioContextOutputRef = True, streamRef = True,
      processorRef = Some 0, nextStartTimeRef = 25 / 2, sourceNodesRef = [0, 1],
      nodes = [\<lparr>n_when = 10, n_duration = 1, n_stopped = False\<rparr>,
               \<lparr>n_when = 11, n_duration = 3 / 2, n_stopped = False\<rparr>],
      sessions = [\<lparr>p_state = Fulfilled, p_reactions = []\<rparr>],
      microtasks = [], effects = [OutputContextCreate, NodeStart 0, NodeStart 1]\<rparr>"
  by (simp add: speaking_def listening_eq onMessage_def onMessage_begin_def
      onMessage_resume_def transcription_branch_def interruption_branch_def audio_A_def
      audio_B_def decode_example_def emit_def set_add_def Let_def)

lemma connecting_eq:
  "connecting = \<lparr>connectionStatus = Connecting, sessionRef = Some 0,
      audioContextInputRef = True, audioContextOutputRef = True, streamRef = True,
      processorRef = Some 0, nextStartTimeRef = 0, sourceNodesRef = [], nodes = [],
      sessions = [\<lparr>p_state = Pending, p_reactions = []\<rparr>],
      microtasks = [], effects = [OutputContextCreate]\<rparr>"
  by (simp add: connecting_def event_def toggleEffect_def mounted_def
      startSession_def run_microtasks_def emit_def Let_def)

lemma stopped_while_decoding_eq:
  "stopped_while_decoding = \<lparr>connectionStatus = Disconnected, sessionRef = None,
      audioContextInputRef = False, audioContextOutputRef = True, streamRef = False,
      processorRef = None, nextStartTimeRef = 0, sourceNodesRef = [], nodes = [],
      sessions = [\<lparr>p_state = Fulfilled, p_reactions = []\<rparr>],
      microtasks = [],
      effects = [OutputContextCreate, InputContextClose, TracksStop, ProcessorDisconnect,
                 SessionClose 0]\<rparr>"
  by (simp add: stopped_while_decoding_def listening_eq onMessage_begin_def
      transcription_branch_def audio_A_def event_def toggleEffect_def stopAudio_def flush_def
      promise_then_def run_microtasks_def run_reaction_def emit_def Let_def)

lemma steps_overlapping_nodes:
  "nodes (steps listening overlapping) =
     [\<lparr>n_when = 52 / 5, n_duration = 1, n_stopped = False\<rparr>,
      \<lparr>n_when = 57 / 5, n_duration = 3 / 2, n_stopped = False\<rparr>]"
  by (simp add: overlapping_def listening_eq onMessage_begin_def onMessage_resume_def
      transcription_branch_def interruption_branch_def audio_A_def audio_B_def emit_def
      set_add_def Let_def)

section \<open>Scheduling\<close>

lemma transcription_branch_fields:
  "nodes (transcription_branch m s) = nodes s"
  "nextStartTimeRef (transcription_branch m s) = nextStartTimeRef s"
  "audioContextOutputRef (transcription_branch m s) = audioContextOutputRef s"
  "sourceNodesRef (transcription_branch m s) = sourceNodesRef s"
  by (simp_all add: transcription_branch_def emit_def split: option.splits)

lemma transcription_branch_frame:
  "connectionStatus (transcription_branch m s) = connectionStatus s"
  "sessionRef (transcription_branch m s) = sessionRef s"
  "audioContextInputRef (transcription_branch m s) = audioContextInputRef s"
  "streamRef (transcription_branch m s) = streamRef s"
  "processorRef (transcription_branch m s) = processorRef s"
  "sessions (transcription_branch m s) = sessions s"
  "microtasks (transcription_branch m s) = microtasks s"
  by (simp_all add: transcription_branch_def emit_def split: option.splits)


lemma onMessage_audio:
  assumes "audioContextOutputRef s" and "fragment_duration decode m = Some d"
    and "\<not> interrupted m"
  shows "nodes (final (onMessage decode s now m)) =
           nodes s @ [\<lparr>n_when = max (nextStartTimeRef s) now, n_duration = d, n_stopped = False\<rparr>]"
    and "nextStartTimeRef (final (onMessage decode s now m)) = max (nextStartTimeRef s) now + d"
    and "audioContextOutputRef (final (onMessage decode s now m))"
    and "sourceNodesRef (final (onMessage decode s now m)) =
           set_add (length (nodes s)) (sourceNodesRef s)"
  using assms
  by (auto simp: onMessage_def onMessage_begin_def onMessage_resume_def fragment_duration_def
      interruption_branch_def transcription_branch_fields emit_def Let_def
      split: option.splits if_splits)

lemma onMessages_append:
  "onMessages decode s (xs @ ys) = onMessages decode (onMessages decode s xs) ys"
  by (induction xs arbitrary: s) auto

lemma onMessages_fragments:
  assumes "audioContextOutputRef s" and "fragments decode ms"
  shows "audioContextOutputRef (onMessages decode s ms) \<and>
         (\<exists>hs. nodes (onMessages decode s ms) = nodes s @ hs \<and> length hs = length ms)"
  using assms
proof (induction ms arbitrary: s)
  case Nil
  then show ?case by simp
next
  case (Cons x ms)
  obtain now m where x: "x = (now, m)" by (cases x)
  from Cons.prems x obtain d where d: "fragment_duration decode m = Some d"
    and ni: "\<not> interrupted m" and rest: "fragments decode ms"
    by (auto simp: fragments_def)
  let ?s1 = "final (onMessage decode s now m)"
  note step = onMessage_audio [OF Cons.prems(1) d ni, of now]
  from Cons.IH [OF step(3) rest] obtain hs where
    out: "audioContextOutputRef (onMessages decode ?s1 ms)"
    and hs: "nodes (onMessages decode ?s1 ms) = nodes ?s1 @ hs" "length hs = length ms"
    by blast
  show ?case using out hs step(1) x by simp
qed

lemma fragments_take: "fragments decode ms \<Longrightarrow> fragments decode (take i ms)"
  by (induction ms arbitrary: i) (auto simp: fragments_def take_Cons split: nat.splits)

lemma fragments_drop: "fragments decode ms \<Longrightarrow> fragments decode (drop i ms)"
  by (induction ms arbitrary: i) (auto simp: fragments_def drop_Cons split: nat.splits)

lemma onMessages_nth:
  assumes out: "audioContextOutputRef s" and fr: "fragments decode ms" and i: "i < length ms"
  shows "nodes (onMessages decode s ms) ! (length (nodes s) + i) =
           \<lparr>n_when = max (nextStartTimeRef (onMessages decode s (take i ms))) (fst (ms ! i)),
            n_duration = the (fragment_duration decode (snd (ms ! i))), n_stopped = False\<rparr>"
    and "nextStartTimeRef (onMessages decode s (take (Suc i) ms)) =
           max (nextStartTimeRef (onMessages decode s (take i ms))) (fst (ms ! i)) +
           the (fragment_duration decode (snd (ms ! i)))"
proof -
  let ?si = "onMessages decode s (take i ms)"
  obtain now m where x: "ms ! i = (now, m)" by (cases "ms ! i")
  have split: "ms = take i ms @ (now, m) # drop (Suc i) ms"
    using id_take_nth_drop [OF i] x by simp
  from onMessages_fragments [OF out fragments_take [OF fr], of i] i obtain hs where
    outi: "audioContextOutputRef ?si" and hs: "nodes ?si = nodes s @ hs" "length hs = i"
    by auto
  from fr i x obtain d where d: "fragment_duration decode m = Some d" and ni: "\<not> interrupted m"
    using list_all_length [of _ ms] by (fastforce simp: fragments_def)
  let ?s1 = "final (onMessage decode ?si now m)"
  note step = onMessage_audio [OF outi d ni, of now]
  have suc: "onMessages decode s (take (Suc i) ms) = ?s1"
    using i x by (simp add: take_Suc_conv_app_nth onMessages_append)
  from onMessages_fragments [OF step(3) fragments_drop [OF fr], of "Suc i"] obtain hs' where
    hs': "nodes (onMessages decode ?s1 (drop (Suc i) ms)) = nodes ?s1 @ hs'" by blast
  have "onMessages decode s ms = onMessages decode ?s1 (drop (Suc i) ms)"
    by (subst split) (simp add: onMessages_append)
  then have "nodes (onMessages decode s ms) =
      (nodes s @ hs) @ \<lparr>n_when = max (nextStartTimeRef ?si) now, n_duration = d,
         n_stopped = False\<rparr> # hs'"
    using hs' step(1) hs(1) by simp
  then show "nodes (onMessages decode s ms) ! (length (nodes s) + i) =
           \<lparr>n_when = max (nextStartTimeRef ?si) (fst (ms ! i)),
            n_duration = the (fragment_duration decode (snd (ms ! i))), n_stopped = False\<rparr>"
    using hs(2) x d by (simp add: nth_append)
  show "nextStartTimeRef (onMessages decode s (take (Suc i) ms)) =
           max (nextStartTimeRef ?si) (fst (ms ! i)) +
           the (fragment_duration decode (snd (ms ! i)))"
    using suc step(2) x d by simp
qed

lemma resume_schedules:
  fixes s :: "('t::{plus,zero}, 'b) voiceAssistant"
  assumes "\<not> interrupted m"
  shows "onMessage_resume s m (Some d) =
           Returned (s\<lparr>nodes := nodes s @
                        [\<lparr>n_when = nextStartTimeRef s, n_duration = d, n_stopped = False\<rparr>],
                      effects := effects s @ [NodeStart (length (nodes s))],
                      nextStartTimeRef := nextStartTimeRef s + d,
                      sourceNodesRef := set_add (length (nodes s)) (sourceNodesRef s)\<rparr>)"
  using assms by (simp add: onMessage_resume_def interruption_branch_def emit_def Let_def)

lemma gapless_earlier: "c' \<le> c \<Longrightarrow> gapless c hs \<Longrightarrow> gapless c' hs"
  by (cases hs) auto

lemma end_of_nonempty: "hs \<noteq> [] \<Longrightarrow> end_of c hs = end_of c' hs"
  by (cases hs) auto

lemma gapless_nth:
  "gapless c hs \<Longrightarrow> Suc i < length hs \<Longrightarrow>
     n_when (hs ! i) + n_duration (hs ! i) \<le> n_when (hs ! Suc i)"
proof (induction hs arbitrary: c i)
  case Nil
  then show ?case by simp
next
  case (Cons h hs)
  show ?case
  proof (cases i)
    case 0
    with Cons.prems show ?thesis by (cases hs) auto
  next
    case (Suc j)
    with Cons.prems Cons.IH [of "n_when h + n_duration h" j] show ?thesis by simp
  qed
qed

lemma begin_quiet:
  fixes s :: "('t::{linorder,zero}, 'b) voiceAssistant"
  assumes "\<not> interrupted m"
  shows "nodes (final (onMessage_begin s now m)) = nodes s"
    and "nextStartTimeRef s \<le> nextStartTimeRef (final (onMessage_begin s now m))"
  using assms
  by (auto simp: onMessage_begin_def interruption_branch_def transcription_branch_fields
      Let_def split: option.splits)

lemma steps_gapless:
  fixes s :: "('t::{linorder,plus,zero}, 'b) voiceAssistant"
  assumes "list_all quiet xs"
  shows "\<exists>hs. nodes (steps s xs) = nodes s @ hs \<and> gapless (nextStartTimeRef s) hs \<and>
           end_of (nextStartTimeRef s) hs \<le> nextStartTimeRef (steps s xs)"
  using assms
proof (induction xs arbitrary: s)
  case Nil
  then show ?case by simp
next
  case (Cons x xs)
  then have rest: "list_all quiet xs" and q: "quiet x" by simp_all
  show ?case
  proof (cases x)
    case (Arrives now m)
    let ?s1 = "final (onMessage_begin s now m)"
    from q Arrives have ni: "\<not> interrupted m" by simp
    note b = begin_quiet [OF ni, of s now]
    from Cons.IH [OF rest, of ?s1] obtain hs where
      hs: "nodes (steps ?s1 xs) = nodes ?s1 @ hs" "gapless (nextStartTimeRef ?s1) hs"
        "end_of (nextStartTimeRef ?s1) hs \<le> nextStartTimeRef (steps ?s1 xs)"
      by blast
    have g: "gapless (nextStartTimeRef s) hs" by (rule gapless_earlier [OF b(2) hs(2)])
    have e: "end_of (nextStartTimeRef s) hs \<le> nextStartTimeRef (steps ?s1 xs)"
    proof (cases "hs = []")
      case True
      with hs(3) b(2) show ?thesis by simp
    next
      case False
      from end_of_nonempty [OF this, of "nextStartTimeRef s" "nextStartTimeRef ?s1"] hs(3)
      show ?thesis by simp
    qed
    from hs(1) b(1) g e Arrives show ?thesis by simp
  next
    case (Decoded m d)
    let ?s1 = "final (onMessage_resume s m (Some d))"
    let ?h = "\<lparr>n_when = nextStartTimeRef s, n_duration = d, n_stopped = False\<rparr>"
    from q Decoded have ni: "\<not> interrupted m" by simp
    have n: "nodes ?s1 = nodes s @ [?h]" and c: "nextStartTimeRef ?s1 = nextStartTimeRef s + d"
      by (simp_all add: resume_schedules [OF ni])
    from Cons.IH [OF rest, of ?s1] obtain hs where
      hs: "nodes (steps ?s1 xs) = nodes ?s1 @ hs" "gapless (nextStartTimeRef ?s1) hs"
        "end_of (nextStartTimeRef ?s1) hs \<le> nextStartTimeRef (steps ?s1 xs)"
      by blast
    have "nodes (steps s (x # xs)) = nodes s @ (?h # hs)"
      using hs(1) n Decoded by simp
    moreover have "gapless (nextStartTimeRef s) (?h # hs)" using hs(2) c by simp
    moreover have "end_of (nextStartTimeRef s) (?h # hs) \<le> nextStartTimeRef (steps s (x # xs))"
      using hs(3) c Decoded by simp
    ultimately show ?thesis by blast
  next
    case (Ends n)
    from Cons.IH [OF rest, of "ended n s"] Ends show ?thesis by (simp add: ended_def)
  qed
qed

text \<open>However the parts of overlapping handlers are interleaved, without an interruption
  no node is started before the end of the node started before it.\<close>

lemma gapless_under_interleaving:
  fixes s :: "('t::{linorder,plus,zero}, 'b) voiceAssistant"
  assumes "list_all quiet xs" and "length (nodes s) \<le> i"
    and "Suc i < length (nodes (steps s xs))"
  shows "n_when (nodes (steps s xs) ! i) + n_duration (nodes (steps s xs) ! i)
           \<le> n_when (nodes (steps s xs) ! Suc i)"
proof -
  from steps_gapless [OF assms(1), of s] obtain hs where
    hs: "nodes (steps s xs) = nodes s @ hs" "gapless (nextStartTimeRef s) hs" by blast
  let ?j = "i - length (nodes s)"
  have "Suc ?j < length hs" using assms(2,3) hs(1) by simp
  from gapless_nth [OF hs(2) this] assms(2) hs(1) show ?thesis
    by (simp add: nth_append Suc_diff_le)
qed

text \<open>
  Claim C1. Audio fragments are handled one after the other from a state \<open>s\<close> with an
  output context, each message carrying a payload that decodes and none carrying the
  interruption signal, so that nothing flushes the scheduler in between. Then one node
  is started per fragment, in order; the \<open>i\<close>-th is started at the maximum of the cursor
  and the current time, as the handler of the \<open>i\<close>-th message finds and reads them; its
  duration is that of the decoded buffer; and the cursor after it is its start time plus
  its duration. Hence the start time of handle \<open>i + 1\<close> is the maximum of the end of
  handle \<open>i\<close> and the current time read for fragment \<open>i + 1\<close>: it is the end of handle
  \<open>i\<close> unless the scheduler has been idle since then, in which case it is that current
  time, and it is never less than the end of handle \<open>i\<close>. The last part holds also when
  the handlers overlap: however arrivals, completed decodings and ended nodes are
  interleaved, without an interruption no node is started before the end of the node
  started before it.
\<close>

theorem gapless_scheduling:
  fixes s :: "('t::{linorder,plus,zero}, 'b) voiceAssistant"
  assumes "audioContextOutputRef s" and "fragments decode ms"
  shows "(length (nodes (onMessages decode s ms)) = length (nodes s) + length ms \<and>
    (\<forall>i<length ms.
       (let h = nodes (onMessages decode s ms) ! (length (nodes s) + i);
            before = onMessages decode s (take i ms);
            after = onMessages decode s (take (Suc i) ms)
        in n_when h = max (nextStartTimeRef before) (fst (ms ! i)) \<and>
           fragment_duration decode (snd (ms ! i)) = Some (n_duration h) \<and>
           nextStartTimeRef after = n_when h + n_duration h)) \<and>
    (\<forall>i. Suc i < length ms \<longrightarrow>
       (let h = nodes (onMessages decode s ms) ! (length (nodes s) + i);
            h' = nodes (onMessages decode s ms) ! (length (nodes s) + Suc i);
            now' = fst (ms ! Suc i)
        in n_when h' = max (n_when h + n_duration h) now' \<and>
           n_when h + n_duration h \<le> n_when h' \<and>
           (now' \<le> n_when h + n_duration h \<longrightarrow> n_when h' = n_when h + n_duration h) \<and>
           (n_when h + n_duration h < now' \<longrightarrow> n_when h' = now')))) \<and>
    (\<forall>xs i. list_all quiet xs \<and> length (nodes s) \<le> i \<and>
        Suc i < length (nodes (steps s xs)) \<longrightarrow>
        n_when (nodes (steps s xs) ! i) + n_duration (nodes (steps s xs) ! i)
          \<le> n_when (nodes (steps s xs) ! Suc i))"
proof -
  have one_after_the_other: "length (nodes (onMessages decode s ms)) = length (nodes s) + length ms \<and>
    (\<forall>i<length ms.
       (let h = nodes (onMessages decode s ms) ! (length (nodes s) + i);
            before = onMessages decode s (take i ms);
            after = onMessages decode s (take (Suc i) ms)
        in n_when h = max (nextStartTimeRef before) (fst (ms ! i)) \<and>
           fragment_duration decode (snd (ms ! i)) = Some (n_duration h) \<and>
           nextStartTimeRef after = n_when h + n_duration h)) \<and>
    (\<forall>i. Suc i < length ms \<longrightarrow>
       (let h = nodes (onMessages decode s ms) ! (length (nodes s) + i);
            h' = nodes (onMessages decode s ms) ! (length (nodes s) + Suc i);
            now' = fst (ms ! Suc i)
        in n_when h' = max (n_when h + n_duration h) now' \<and>
           n_when h + n_duration h \<le> n_when h' \<and>
           (now' \<le> n_when h + n_duration h \<longrightarrow> n_when h' = n_when h + n_duration h) \<and>
           (n_when h + n_duration h < now' \<longrightarrow> n_when h' = now')))"
  proof (intro conjI allI impI)
    from onMessages_fragments [OF assms]
    show "length (nodes (onMessages decode s ms)) = length (nodes s) + length ms" by auto
  next
    fix i assume i: "i < length ms"
    obtain now m where x: "ms ! i = (now, m)" by (cases "ms ! i")
    from assms(2) i x obtain d where d: "fragment_duration decode m = Some d"
      using list_all_length [of _ ms] by (fastforce simp: fragments_def)
    show "let h = nodes (onMessages decode s ms) ! (length (nodes s) + i);
              before = onMessages decode s (take i ms);
              after = onMessages decode s (take (Suc i) ms)
          in n_when h = max (nextStartTimeRef before) (fst (ms ! i)) \<and>
             fragment_duration decode (snd (ms ! i)) = Some (n_duration h) \<and>
             nextStartTimeRef after = n_when h + n_duration h"
      using onMessages_nth [OF assms i] x d by (simp add: Let_def)
  next
    fix i assume i: "Suc i < length ms"
    then have i0: "i < length ms" by simp
    note a = onMessages_nth [OF assms i0]
    note b = onMessages_nth [OF assms i]
    show "let h = nodes (onMessages decode s ms) ! (length (nodes s) + i);
              h' = nodes (onMessages decode s ms) ! (length (nodes s) + Suc i);
              now' = fst (ms ! Suc i)
          in n_when h' = max (n_when h + n_duration h) now' \<and>
             n_when h + n_duration h \<le> n_when h' \<and>
             (now' \<le> n_when h + n_duration h \<longrightarrow> n_when h' = n_when h + n_duration h) \<and>
             (n_when h + n_duration h < now' \<longrightarrow> n_when h' = now')"
      using a b by (auto simp: Let_def max_def)
  qed
  have overlapping: "(\<forall>xs i. list_all quiet xs \<and> length (nodes s) \<le> i \<and>
        Suc i < length (nodes (steps s xs)) \<longrightarrow>
        n_when (nodes (steps s xs) ! i) + n_duration (nodes (steps s xs) ! i)
          \<le> n_when (nodes (steps s xs) ! Suc i))"
    using gapless_under_interleaving [of _ s] by blast
  from one_after_the_other overlapping show ?thesis by (rule conjI)
qed

text \<open>Claim C1 at fragments A and B, of 1 s and 1.5 s, arriving at times 10 and 10.4 while
  the scheduler is idle: A is started at 10 and B at 11. When B arrives before the
  decoding of A has completed, B is still not started before the end of A.\<close>

theorem gapless_scheduling_witness:
  "audioContextOutputRef listening \<and>
   fragments decode_example [(10, audio_A), (52 / 5, audio_B)] \<and>
   n_when (nodes speaking ! 0) = 10 \<and>
   n_duration (nodes speaking ! 0) = 1 \<and>
   n_when (nodes speaking ! 1) = 11 \<and>
   n_duration (nodes speaking ! 1) = 3 / 2 \<and>
   list_all quiet overlapping \<and>
   length (nodes (steps listening overlapping)) = 2 \<and>
   n_when (nodes (steps listening overlapping) ! 0) +
     n_duration (nodes (steps listening overlapping) ! 0)
     \<le> n_when (nodes (steps listening overlapping) ! 1)"
proof -
  have h1: "audioContextOutputRef listening" by (simp add: listening_eq)
  have h2: "fragments decode_example [(10, audio_A), (52 / 5, audio_B)]"
    by (simp add: fragments_def fragment_duration_def decode_example_def audio_A_def
        audio_B_def del: not_None_eq)
  note g = gapless_scheduling [OF h1 h2, THEN conjunct1, folded speaking_def]
  note each = g [THEN conjunct2, THEN conjunct1, rule_format]
  note chain = g [THEN conjunct2, THEN conjunct2, rule_format]
  from each [of 0]
  have a: "n_when (nodes speaking ! 0) = 10 \<and> n_duration (nodes speaking ! 0) = 1"
    by (simp add: Let_def listening_eq fragment_duration_def decode_example_def audio_A_def)
  from each [of 1]
  have b: "n_duration (nodes speaking ! 1) = 3 / 2"
    by (simp add: Let_def listening_eq fragment_duration_def decode_example_def audio_B_def)
  from chain [of 0] a
  have c: "n_when (nodes speaking ! 1) = 11"
    by (simp add: Let_def listening_eq)
  have q: "list_all quiet overlapping"
    by (simp add: overlapping_def audio_A_def audio_B_def)
  have len: "length (nodes (steps listening overlapping)) = 2"
    by (simp add: steps_overlapping_nodes)
  have l0: "length (nodes listening) \<le> 0" by (simp add: listening_eq)
  from gapless_scheduling [OF h1 h2, THEN conjunct2, rule_format, of overlapping 0] q len l0
  have o: "n_when (nodes (steps listening overlapping) ! 0) +
     n_duration (nodes (steps listening overlapping) ! 0)
     \<le> n_when (nodes (steps listening overlapping) ! 1)"
    by simp
  from h1 h2 a b c q len o show ?thesis by simp
qed

section \<open>Interruption and flush\<close>








text \<open>
  Claim C8. After a flush the active set is empty and the cursor is 0; a second flush
  changes nothing; a flush of a scheduler whose active set is empty stops no node, makes
  no call and only sets the cursor to 0, so that with the cursor at 0 it changes
  nothing at all. The same holds of \<open>stopAudio\<close> and of the interruption branch of the
  message handler, which end with the flush.
\<close>

theorem flush_idempotent:
  fixes s :: "('t::zero, 'b) voiceAssistant"
  shows
  "sourceNodesRef (flush s) = [] \<and> nextStartTimeRef (flush s) = 0 \<and>
   flush (flush s) = flush s \<and>
   (sourceNodesRef s = [] \<longrightarrow>
      flush s = s\<lparr>nextStartTimeRef := 0\<rparr> \<and> nodes (flush s) = nodes s \<and>
      effects (flush s) = effects s) \<and>
   (sourceNodesRef s = [] \<and> nextStartTimeRef s = 0 \<longrightarrow> flush s = s) \<and>
   sourceNodesRef (stopAudio s) = [] \<and> nextStartTimeRef (stopAudio s) = 0 \<and>
   stopAudio (stopAudio s) = stopAudio s \<and>
   (interrupted m \<longrightarrow>
      sourceNodesRef (interruption_branch m s) = [] \<and>
      nextStartTimeRef (interruption_branch m s) = 0 \<and>
      interruption_branch m (interruption_branch m s) = interruption_branch m s)"
proof (intro conjI impI)
  show "stopAudio (stopAudio s) = stopAudio s" by (rule stopAudio_idem)
qed (simp_all add: flush_def interruption_branch_def stopAudio_scheduler)

text \<open>Claim C8 with fragments A and B scheduled, and on the idle scheduler.\<close>

theorem flush_idempotent_witness:
  "sourceNodesRef speaking = [0, 1] \<and>
   sourceNodesRef (flush speaking) = [] \<and> nextStartTimeRef (flush speaking) = 0 \<and>
   sourceNodesRef (flush (flush speaking)) = [] \<and>
   nextStartTimeRef (flush (flush speaking)) = 0 \<and>
   flush (flush speaking) = flush speaking \<and>
   interrupted interruption \<and>
   interruption_branch interruption (interruption_branch interruption speaking) =
     interruption_branch interruption speaking \<and>
   sourceNodesRef listening = [] \<and> nextStartTimeRef listening = 0 \<and>
   flush listening = listening"
proof -
  have a: "sourceNodesRef speaking = [0, 1]" by (simp add: speaking_eq)
  have i: "interrupted interruption" by (simp add: interruption_def)
  have l: "sourceNodesRef listening = []" "nextStartTimeRef listening = 0"
    by (simp_all add: listening_eq)
  note f = flush_idempotent [of speaking interruption]
  note g = flush_idempotent [of "flush speaking" interruption]
  note h = flush_idempotent [of listening interruption]
  from f g h a i l show ?thesis by simp
qed

section \<open>Teardown\<close>

lemma effects_since_append: "effects t = effects s @ xs \<Longrightarrow> effects_since s t = xs"
  by (simp add: effects_since_def)

lemma reaction_call_not_output:
  "reaction_call r \<noteq> OutputContextClose" "OutputContextClose \<noteq> reaction_call r"
  by (cases r rule: reaction_call.cases; simp)+

lemma toggle_off_alt:
  assumes "connectionStatus s = Connected"
  shows "toggleEffect granted False s =
     (case sessionRef s of
        None \<Rightarrow> (stopAudio s)\<lparr>connectionStatus := Disconnected\<rparr>
      | Some k \<Rightarrow> (promise_then k Close (stopAudio s))
                    \<lparr>sessionRef := None, connectionStatus := Disconnected\<rparr>)"
  using assms by (simp add: toggleEffect_def stopAudio_frame Let_def split: option.splits)

lemma toggle_off_scheduler:
  assumes "connectionStatus s = Connected"
  shows "sourceNodesRef (toggleEffect granted False s) = []"
    and "nextStartTimeRef (toggleEffect granted False s) = 0"
    and "nodes (toggleEffect granted False s) = nodes (stopAudio s)"
    and "effects (toggleEffect granted False s) = effects (stopAudio s)"
    and "audioContextOutputRef (toggleEffect granted False s) = audioContextOutputRef s"
    and "connectionStatus (toggleEffect granted False s) = Disconnected"
    and "sessionRef (toggleEffect granted False s) = None"
    and "audioContextInputRef (toggleEffect granted False s) = False"
    and "streamRef (toggleEffect granted False s) = False"
    and "processorRef (toggleEffect granted False s) = None"
    and "microtasks (toggleEffect granted False s) = microtasks s @ map (\<lambda>e. (the (sessionRef s), Close)) (close_calls s)"
  by (simp_all add: toggle_off_alt [OF assms] promise_then_frame stopAudio_frame
      stopAudio_scheduler promise_then_microtasks close_calls_def split: option.splits)

lemma close_calls_map:
  "map (reaction_call \<circ> (\<lambda>e. (the (sessionRef s), Close))) (close_calls s) = close_calls s"
  by (simp add: close_calls_def split: option.splits)

lemma unmount_scheduler:
  "sourceNodesRef (unmountCleanup s) = []"
  "nextStartTimeRef (unmountCleanup s) = 0"
  "nodes (unmountCleanup s) = nodes (stopAudio s)"
  "effects (unmountCleanup s) =
     effects (stopAudio s) @ (if audioContextOutputRef s then [OutputContextClose] else [])"
  "audioContextOutputRef (unmountCleanup s) = audioContextOutputRef s"
  "microtasks (unmountCleanup s) = microtasks s @ map (\<lambda>e. (the (sessionRef s), Close)) (close_calls s)"
  by (simp_all add: unmountCleanup_def promise_then_frame stopAudio_frame emit_def
      stopAudio_scheduler promise_then_microtasks close_calls_def Let_def split: option.splits)

lemma toggle_off_effects:
  assumes "connectionStatus s = Connected"
  shows "effects_since s (event (toggleEffect granted False) s) =
           capture_stop_calls s @ map NodeStop (sourceNodesRef s) @
           map reaction_call (microtasks s) @ close_calls s"
  by (rule effects_since_append)
    (simp add: event_def run_microtasks_effects toggle_off_scheduler [OF assms]
      stopAudio_scheduler close_calls_map)

lemma unmount_effects:
  "effects_since s (event unmountCleanup s) =
     capture_stop_calls s @ map NodeStop (sourceNodesRef s) @
     (if audioContextOutputRef s then [OutputContextClose] else []) @
     map reaction_call (microtasks s) @ close_calls s"
  by (rule effects_since_append)
    (simp add: event_def run_microtasks_effects unmount_scheduler
      stopAudio_scheduler close_calls_map)

lemma not_output_in_calls:
  "OutputContextClose \<notin> set (capture_stop_calls s)"
  "OutputContextClose \<notin> set (map NodeStop ns)"
  "OutputContextClose \<notin> set (map reaction_call q)"
  "OutputContextClose \<notin> set (close_calls s)"
  using reaction_call_not_output
  by (auto simp: capture_stop_calls_def close_calls_def split: option.splits)

text \<open>
  Claim C2, as amended. Teardown, that is \<open>stopAudio\<close> alone, or the unmount cleanup, or
  the toggle effect switching listening off while connected, empties the active set and
  resets the cursor to 0 at the time it runs, stops the handles that were active, and
  leaves the output context ref as it was. It cancels nothing that is still to come: in
  a state \<open>t\<close> that has been torn down, a decoding that completes is started at the
  cursor, 0, and becomes the one active handle, and a message whose payload arrives while
  the output context ref is set moves the cursor and is decoded.
\<close>

theorem teardown_cancels_nothing:
  fixes s t :: "('t::{linorder,plus,zero}, 'b) voiceAssistant"
  shows
  "sourceNodesRef (stopAudio s) = [] \<and> nextStartTimeRef (stopAudio s) = 0 \<and>
   audioContextOutputRef (stopAudio s) = audioContextOutputRef s \<and>
   sourceNodesRef (event unmountCleanup s) = [] \<and>
   nextStartTimeRef (event unmountCleanup s) = 0 \<and>
   audioContextOutputRef (event unmountCleanup s) = audioContextOutputRef s \<and>
   (connectionStatus s = Connected \<longrightarrow>
      sourceNodesRef (event (toggleEffect granted False) s) = [] \<and>
      nextStartTimeRef (event (toggleEffect granted False) s) = 0 \<and>
      audioContextOutputRef (event (toggleEffect granted False) s) = audioContextOutputRef s) \<and>
   (active_nodes_exist s \<longrightarrow>
      list_all (\<lambda>n. n_stopped (nodes (stopAudio s) ! n)) (sourceNodesRef s)) \<and>
   (sourceNodesRef t = [] \<and> nextStartTimeRef t = 0 \<and> \<not> interrupted m \<longrightarrow>
      (\<exists>r. onMessage_resume t m (Some d) = Returned r \<and>
           sourceNodesRef r = [length (nodes t)] \<and>
           nodes r = nodes t @ [\<lparr>n_when = 0, n_duration = d, n_stopped = False\<rparr>] \<and>
           nextStartTimeRef r = 0 + d)) \<and>
   (audioContextOutputRef t \<and> inlineData m = Some p \<and> p \<noteq> [] \<longrightarrow>
      (\<exists>t'. onMessage_begin t now m = Awaiting t' p \<and>
            nextStartTimeRef t' = max (nextStartTimeRef t) now))"
proof (intro conjI impI)
  assume "active_nodes_exist s"
  then show "list_all (\<lambda>n. n_stopped (nodes (stopAudio s) ! n)) (sourceNodesRef s)"
    using stopAudio_stops_active [of s] by (simp add: list_all_iff)
next
  assume a: "sourceNodesRef t = [] \<and> nextStartTimeRef t = 0 \<and> \<not> interrupted m"
  then have "\<not> interrupted m" by simp
  from resume_schedules [OF this, of t d] a
  show "\<exists>r. onMessage_resume t m (Some d) = Returned r \<and>
           sourceNodesRef r = [length (nodes t)] \<and>
           nodes r = nodes t @ [\<lparr>n_when = 0, n_duration = d, n_stopped = False\<rparr>] \<and>
           nextStartTimeRef r = 0 + d"
    by (simp add: set_add_def)
next
  assume "audioContextOutputRef t \<and> inlineData m = Some p \<and> p \<noteq> []"
  then show "\<exists>t'. onMessage_begin t now m = Awaiting t' p \<and>
            nextStartTimeRef t' = max (nextStartTimeRef t) now"
    by (simp add: onMessage_begin_def transcription_branch_fields Let_def)
qed (simp_all add: event_def run_microtasks_frame stopAudio_scheduler stopAudio_frame
      unmount_scheduler toggle_off_scheduler)

text \<open>The amended claim C2 where the user stops listening while fragment A is decoded, where
  fragment B arrives after that, and where A and B are scheduled when \<open>stopAudio\<close> runs.\<close>

theorem teardown_cancels_nothing_witness:
  "connectionStatus (final (onMessage_begin listening 10 audio_A)) = Connected \<and>
   sourceNodesRef stopped_while_decoding = [] \<and>
   nextStartTimeRef stopped_while_decoding = 0 \<and>
   \<not> interrupted audio_A \<and>
   (\<exists>r. onMessage_resume stopped_while_decoding audio_A (Some 1) = Returned r \<and>
        sourceNodesRef r = [length (nodes stopped_while_decoding)] \<and>
        nodes r = nodes stopped_while_decoding @
                    [\<lparr>n_when = 0, n_duration = 1, n_stopped = False\<rparr>] \<and>
        nextStartTimeRef r = 0 + 1) \<and>
   audioContextOutputRef stopped_while_decoding \<and>
   inlineData audio_B = Some ''BBBBBB'' \<and>
   (\<exists>t'. onMessage_begin stopped_while_decoding 12 audio_B = Awaiting t' ''BBBBBB'' \<and>
         nextStartTimeRef t' = max (nextStartTimeRef stopped_while_decoding) 12) \<and>
   active_nodes_exist speaking \<and>
   sourceNodesRef speaking = [0, 1] \<and>
   n_stopped (nodes (stopAudio speaking) ! 0) \<and> n_stopped (nodes (stopAudio speaking) ! 1)"
proof -
  let ?s = "final (onMessage_begin listening 10 audio_A) :: (real, string) voiceAssistant"
  have c: "connectionStatus ?s = Connected"
    by (simp add: listening_eq onMessage_begin_def transcription_branch_def audio_A_def Let_def)
  have ni: "\<not> interrupted audio_A" by (simp add: audio_A_def)
  note t = teardown_cancels_nothing [of ?s True stopped_while_decoding audio_A 1,
      folded stopped_while_decoding_def]
  from t c have a: "sourceNodesRef stopped_while_decoding = []"
    and b: "nextStartTimeRef stopped_while_decoding = 0" by simp_all
  from t a b ni
  have late: "\<exists>r. onMessage_resume stopped_while_decoding audio_A (Some 1) = Returned r \<and>
        sourceNodesRef r = [length (nodes stopped_while_decoding)] \<and>
        nodes r = nodes stopped_while_decoding @
                    [\<lparr>n_when = 0, n_duration = 1, n_stopped = False\<rparr>] \<and>
        nextStartTimeRef r = 0 + 1"
    by blast
  have out: "audioContextOutputRef stopped_while_decoding"
    by (simp add: stopped_while_decoding_eq)
  have pb: "inlineData audio_B = Some ''BBBBBB''" by (simp add: audio_B_def)
  from teardown_cancels_nothing [of speaking True stopped_while_decoding audio_B 1
      "''BBBBBB''" 12] out pb
  have msg: "\<exists>t'. onMessage_begin stopped_while_decoding 12 audio_B = Awaiting t' ''BBBBBB'' \<and>
         nextStartTimeRef t' = max (nextStartTimeRef stopped_while_decoding) 12"
    by simp
  have ex: "active_nodes_exist speaking" by (simp add: active_nodes_exist_def speaking_eq)
  have act: "sourceNodesRef speaking = [0, 1]" by (simp add: speaking_eq)
  from teardown_cancels_nothing [of speaking True stopped_while_decoding audio_B 1
      "''BBBBBB''" 12] ex act
  have st: "n_stopped (nodes (stopAudio speaking) ! 0) \<and> n_stopped (nodes (stopAudio speaking) ! 1)"
    by simp
  from c a b ni late out pb msg ex act st show ?thesis by blast
qed

text \<open>
  Claim C2 as stated fails: the user stops listening while fragment A is being decoded,
  which leaves the active set empty; when the decoding completes, its node is started
  and added to the active set, and the cursor is advanced.
\<close>

theorem late_decode_is_scheduled_counterexample:
  "connectionStatus stopped_while_decoding = Disconnected \<and>
   sourceNodesRef stopped_while_decoding = [] \<and>
   sourceNodesRef late_decode = [0] \<and>
   nodes late_decode = [\<lparr>n_when = 0, n_duration = 1, n_stopped = False\<rparr>] \<and>
   nextStartTimeRef late_decode = 1 \<and>
   effects_since stopped_while_decoding late_decode = [NodeStart 0]"
  by (simp add: late_decode_def stopped_while_decoding_eq onMessage_resume_def
      interruption_branch_def audio_A_def decode_example_def emit_def set_add_def
      effects_since_def Let_def)

text \<open>
  Claim C4, as amended. Switching listening off while connected stops the capture
  source, flushes the scheduler (the active set becomes empty, the cursor 0, and every
  handle that was active is stopped), asks for the connection to be closed and
  sets the status to Disconnected. What it leaves alone is the output context: its ref
  is unchanged and no call closes it, whereas the unmount cleanup closes it.
\<close>

theorem local_stop_flushes_playback:
  fixes s :: "('t::zero, 'b) voiceAssistant"
  assumes "connectionStatus s = Connected" and "active_nodes_exist s"
  shows "(let t = event (toggleEffect granted False) s in
           connectionStatus t = Disconnected \<and> sessionRef t = None \<and>
           audioContextInputRef t = False \<and> streamRef t = False \<and> processorRef t = None \<and>
           sourceNodesRef t = [] \<and> nextStartTimeRef t = 0 \<and>
           list_all (\<lambda>n. n_stopped (nodes t ! n)) (sourceNodesRef s) \<and>
           audioContextOutputRef t = audioContextOutputRef s \<and>
           effects_since s t =
             capture_stop_calls s @ map NodeStop (sourceNodesRef s) @
             map reaction_call (microtasks s) @ close_calls s \<and>
           OutputContextClose \<notin> set (effects_since s t)) \<and>
         (audioContextOutputRef s \<longrightarrow>
            OutputContextClose \<in> set (effects_since s (event unmountCleanup s)))"
proof -
  let ?t = "event (toggleEffect granted False) s"
  have st: "list_all (\<lambda>n. n_stopped (nodes ?t ! n)) (sourceNodesRef s)"
    using stopAudio_stops_active [OF assms(2)]
    by (simp add: event_def run_microtasks_frame toggle_off_scheduler [OF assms(1)] list_all_iff)
  have no: "OutputContextClose \<notin> set (effects_since s ?t)"
    by (simp only: toggle_off_effects [OF assms(1)] set_append Un_iff not_output_in_calls
        simp_thms not_False_eq_True)
  show ?thesis
    using st no
    by (simp add: Let_def event_def run_microtasks_frame toggle_off_scheduler [OF assms(1)]
        toggle_off_effects [OF assms(1), unfolded event_def]
        unmount_effects [unfolded event_def])
qed

text \<open>The amended claim C4 where fragments A and B are scheduled: the local stop stops
  both and does not close the output context; the unmount cleanup closes it.\<close>

theorem local_stop_flushes_playback_witness:
  "connectionStatus speaking = Connected \<and> active_nodes_exist speaking \<and>
   sourceNodesRef speaking = [0, 1] \<and>
   connectionStatus (event (toggleEffect True False) speaking) = Disconnected \<and>
   sourceNodesRef (event (toggleEffect True False) speaking) = [] \<and>
   nextStartTimeRef (event (toggleEffect True False) speaking) = 0 \<and>
   n_stopped (nodes (event (toggleEffect True False) speaking) ! 0) \<and>
   n_stopped (nodes (event (toggleEffect True False) speaking) ! 1) \<and>
   audioContextOutputRef speaking \<and>
   audioContextOutputRef (event (toggleEffect True False) speaking) \<and>
   OutputContextClose \<notin> set (effects_since speaking (event (toggleEffect True False) speaking)) \<and>
   OutputContextClose \<in> set (effects_since speaking (event unmountCleanup speaking))"
proof -
  have h1: "connectionStatus speaking = Connected" by (simp add: speaking_eq)
  have h2: "active_nodes_exist speaking" by (simp add: active_nodes_exist_def speaking_eq)
  have act: "sourceNodesRef speaking = [0, 1]" by (simp add: speaking_eq)
  have out: "audioContextOutputRef speaking" by (simp add: speaking_eq)
  note l = local_stop_flushes_playback [OF h1 h2, of True, unfolded Let_def]
  from l act have a: "connectionStatus (event (toggleEffect True False) speaking) = Disconnected"
    and b: "sourceNodesRef (event (toggleEffect True False) speaking) = []"
    and c: "nextStartTimeRef (event (toggleEffect True False) speaking) = 0"
    and d: "n_stopped (nodes (event (toggleEffect True False) speaking) ! 0)"
    and e: "n_stopped (nodes (event (toggleEffect True False) speaking) ! 1)"
    by simp_all
  from l out have f: "audioContextOutputRef (event (toggleEffect True False) speaking)"
    by simp
  from l have g: "OutputContextClose \<notin>
      set (effects_since speaking (event (toggleEffect True False) speaking))"
    by blast
  from l out have h: "OutputContextClose \<in>
      set (effects_since speaking (event unmountCleanup speaking))"
    by blast
  from h1 h2 act a b c d e out f g h show ?thesis by blast
qed

text \<open>
  Claim C4 as stated fails: with fragments A and B scheduled and not stopped, switching
  listening off stops both, empties the active set and resets the cursor.
\<close>

theorem local_stop_leaves_playing_counterexample:
  "connectionStatus speaking = Connected \<and>
   sourceNodesRef speaking = [0, 1] \<and>
   \<not> n_stopped (nodes speaking ! 0) \<and> \<not> n_stopped (nodes speaking ! 1) \<and>
   nextStartTimeRef speaking = 25 / 2 \<and>
   sourceNodesRef (event (toggleEffect True False) speaking) = [] \<and>
   n_stopped (nodes (event (toggleEffect True False) speaking) ! 0) \<and>
   n_stopped (nodes (event (toggleEffect True False) speaking) ! 1) \<and>
   nextStartTimeRef (event (toggleEffect True False) speaking) = 0"
  by (simp add: speaking_eq event_def toggleEffect_def stopAudio_def flush_def stop_node_def
      promise_then_def run_microtasks_def run_reaction_def emit_def Let_def)

text \<open>
  Claim C5, as amended. Both the unmount cleanup and the toggle effect switching
  listening off make their calls in this order: the capture source is stopped (input
  context, tracks, processor), then the active handles are stopped; on unmount the
  output context is then closed; the call that closes the connection comes last, and is
  made only once the session promise is fulfilled.
\<close>

theorem teardown_order:
  fixes s :: "('t::zero, 'b) voiceAssistant"
  assumes "microtasks s = []"
  shows "effects_since s (event unmountCleanup s) =
           capture_stop_calls s @ map NodeStop (sourceNodesRef s) @
           (if audioContextOutputRef s then [OutputContextClose] else []) @ close_calls s \<and>
         sorted (map teardown_rank (effects_since s (event unmountCleanup s))) \<and>
         (connectionStatus s = Connected \<longrightarrow>
            effects_since s (event (toggleEffect granted False) s) =
              capture_stop_calls s @ map NodeStop (sourceNodesRef s) @ close_calls s \<and>
            sorted (map teardown_rank (effects_since s (event (toggleEffect granted False) s))))"
proof -
  have ranks: "teardown_rank ` set (capture_stop_calls s) \<subseteq> {0}"
    "teardown_rank ` set (close_calls s) \<subseteq> {3}"
    "sorted (map teardown_rank (capture_stop_calls s))"
    "sorted (map teardown_rank (close_calls s))"
    by (auto simp: capture_stop_calls_def close_calls_def split: option.splits)
  have stops: "sorted (map teardown_rank (map NodeStop ns :: 'b effect list))"
    "teardown_rank ` set (map NodeStop ns :: 'b effect list) \<subseteq> {1}" for ns
    by (induction ns) auto
  have a: "sorted (map teardown_rank
             (capture_stop_calls s @ map NodeStop (sourceNodesRef s) @
              (if audioContextOutputRef s then [OutputContextClose] else []) @ close_calls s))"
    using ranks stops [of "sourceNodesRef s"] by (auto simp: sorted_append)
  have b: "sorted (map teardown_rank
             (capture_stop_calls s @ map NodeStop (sourceNodesRef s) @ close_calls s))"
    using ranks stops [of "sourceNodesRef s"] by (auto simp: sorted_append)
  show ?thesis
    using a b assms by (simp add: unmount_effects toggle_off_effects)
qed

text \<open>The amended claim C5 where fragments A and B are scheduled.\<close>

theorem teardown_order_witness:
  "microtasks speaking = [] \<and> connectionStatus speaking = Connected \<and>
   effects_since speaking (event unmountCleanup speaking) =
     [InputContextClose, TracksStop, ProcessorDisconnect, NodeStop 0, NodeStop 1,
      OutputContextClose, SessionClose 0] \<and>
   effects_since speaking (event (toggleEffect True False) speaking) =
     [InputContextClose, TracksStop, ProcessorDisconnect, NodeStop 0, NodeStop 1,
      SessionClose 0]"
proof -
  have h: "microtasks speaking = []" by (simp add: speaking_eq)
  have c: "connectionStatus speaking = Connected" by (simp add: speaking_eq)
  from teardown_order [OF h, of True] c h
  show ?thesis by (simp add: capture_stop_calls_def close_calls_def speaking_eq)
qed

text \<open>
  Claim C5 as stated fails: on unmount and on explicit stop the handles are stopped
  before the connection is closed, and on unmount the output context is closed before it
  too.
\<close>

theorem claimed_teardown_order_counterexample:
  "effects_since speaking (event unmountCleanup speaking) =
     [InputContextClose, TracksStop, ProcessorDisconnect, NodeStop 0, NodeStop 1,
      OutputContextClose, SessionClose 0] \<and>
   \<not> sorted (map claimed_rank (effects_since speaking (event unmountCleanup speaking))) \<and>
   effects_since speaking (event (toggleEffect True False) speaking) =
     [InputContextClose, TracksStop, ProcessorDisconnect, NodeStop 0, NodeStop 1,
      SessionClose 0] \<and>
   \<not> sorted (map claimed_rank
        (effects_since speaking (event (toggleEffect True False) speaking)))"
  by (simp add: speaking_eq event_def toggleEffect_def unmountCleanup_def stopAudio_def
      flush_def stop_node_def promise_then_def run_microtasks_def run_reaction_def emit_def
      effects_since_def Let_def)

section \<open>Microphone frames and the remote close\<close>

lemma audioprocess_pending:
  assumes "k < length (sessions s)" and "p_state (sessions s ! k) = Pending"
    and "microtasks s = []"
  shows "effects (event (onaudioprocess blob k f) s) = effects s"
    and "microtasks (event (onaudioprocess blob k f) s) = []"
    and "length (sessions (event (onaudioprocess blob k f) s)) = length (sessions s)"
    and "p_state (sessions (event (onaudioprocess blob k f) s) ! k) = Pending"
    and "p_reactions (sessions (event (onaudioprocess blob k f) s) ! k) =
           p_reactions (sessions s ! k) @ [SendRealtimeInput (blob f)]"
  using assms
  by (simp_all add: event_def onaudioprocess_def run_microtasks_frame run_microtasks_effects
      promise_then_frame promise_then_microtasks promise_then_def)

lemma capture_pending:
  assumes "k < length (sessions s)" and "p_state (sessions s ! k) = Pending"
    and "microtasks s = []"
  shows "effects (capture blob k fs s) = effects s \<and>
         microtasks (capture blob k fs s) = [] \<and>
         length (sessions (capture blob k fs s)) = length (sessions s) \<and>
         p_state (sessions (capture blob k fs s) ! k) = Pending \<and>
         p_reactions (sessions (capture blob k fs s) ! k) =
           p_reactions (sessions s ! k) @ map (SendRealtimeInput \<circ> blob) fs"
  using assms
proof (induction fs arbitrary: s)
  case Nil
  then show ?case by simp
next
  case (Cons f fs)
  note step = audioprocess_pending [OF Cons.prems, of blob f]
  have k: "k < length (sessions (event (onaudioprocess blob k f) s))"
    using step(3) Cons.prems(1) by simp
  from Cons.IH [OF k step(4) step(2)] step show ?case by simp
qed

lemma settle_event:
  assumes "k < length (sessions s)" and "p_state (sessions s ! k) = Pending"
    and "microtasks s = []"
  shows "effects (event (settle k True) s) =
           effects s @ map (reaction_call \<circ> Pair k) (p_reactions (sessions s ! k))"
    and "microtasks (event (settle k True) s) = []"
    and "k < length (sessions (event (settle k True) s))"
    and "p_state (sessions (event (settle k True) s) ! k) = Fulfilled"
  using assms
  by (simp_all add: event_def run_microtasks_frame run_microtasks_effects settle_def)

lemma audioprocess_fulfilled:
  assumes "k < length (sessions s)" and "p_state (sessions s ! k) = Fulfilled"
    and "microtasks s = []"
  shows "effects (event (onaudioprocess blob k f) s) = effects s @ [SessionSend k (blob f)]"
    and "microtasks (event (onaudioprocess blob k f) s) = []"
    and "sessions (event (onaudioprocess blob k f) s) = sessions s"
  using assms
  by (simp_all add: event_def onaudioprocess_def run_microtasks_frame run_microtasks_effects
      promise_then_frame promise_then_microtasks promise_then_def)

lemma capture_fulfilled:
  assumes "k < length (sessions s)" and "p_state (sessions s ! k) = Fulfilled"
    and "microtasks s = []"
  shows "effects (capture blob k fs s) = effects s @ map (SessionSend k \<circ> blob) fs"
  using assms
proof (induction fs arbitrary: s)
  case Nil
  then show ?case by simp
next
  case (Cons f fs)
  note step = audioprocess_fulfilled [OF Cons.prems, of blob f]
  have "effects (capture blob k fs (event (onaudioprocess blob k f) s)) =
          effects (event (onaudioprocess blob k f) s) @ map (SessionSend k \<circ> blob) fs"
    by (rule Cons.IH) (simp_all add: step Cons.prems)
  then show ?case by (simp add: step)
qed

lemma send_call: "reaction_call \<circ> Pair k \<circ> (SendRealtimeInput \<circ> blob) = SessionSend k \<circ> blob"
  by (rule ext) simp

text \<open>
  Claim C6. While the session promise is pending, every captured frame waits on the
  promise, in capture order, and nothing is sent; when the promise is fulfilled they are
  sent in that order; frames captured after that are sent as they come. So the frames
  sent are exactly the frames captured, in capture order.
\<close>

theorem frames_sent_in_capture_order:
  assumes "k < length (sessions s)" and "p_state (sessions s ! k) = Pending"
    and "p_reactions (sessions s ! k) = []" and "microtasks s = []"
  shows "effects (capture blob k fs s) = effects s \<and>
         p_reactions (sessions (capture blob k fs s) ! k) = map (SendRealtimeInput \<circ> blob) fs \<and>
         effects_since s (event (settle k True) (capture blob k fs s)) =
           map (SessionSend k \<circ> blob) fs \<and>
         effects_since s (capture blob k gs (event (settle k True) (capture blob k fs s))) =
           map (SessionSend k \<circ> blob) (fs @ gs)"
proof -
  let ?s1 = "capture blob k fs s"
  let ?s2 = "event (settle k True) ?s1"
  from capture_pending [OF assms(1,2,4), of blob fs]
  have p: "effects ?s1 = effects s" "microtasks ?s1 = []"
    "length (sessions ?s1) = length (sessions s)" "p_state (sessions ?s1 ! k) = Pending"
    "p_reactions (sessions ?s1 ! k) = map (SendRealtimeInput \<circ> blob) fs"
    using assms(3) by simp_all
  have k: "k < length (sessions ?s1)" using p(3) assms(1) by simp
  note st = settle_event [OF k p(4) p(2)]
  have e2: "effects ?s2 = effects s @ map (SessionSend k \<circ> blob) fs"
    using st(1) p(1,5) by (simp add: send_call)
  have e3: "effects (capture blob k gs ?s2) = effects s @ map (SessionSend k \<circ> blob) (fs @ gs)"
    using capture_fulfilled [OF st(3,4,2), of blob gs] e2 by simp
  show ?thesis
    using p(1,5) effects_since_append [OF e2] effects_since_append [OF e3] by simp
qed

text \<open>Claim C6 with two frames captured while connecting and one after.\<close>

theorem frames_sent_in_capture_order_witness:
  "0 < length (sessions connecting) \<and> p_state (sessions connecting ! 0) = Pending \<and>
   p_reactions (sessions connecting ! 0) = [] \<and> microtasks connecting = [] \<and>
   effects (capture id 0 [''f1'', ''f2''] connecting) = effects connecting \<and>
   p_reactions (sessions (capture id 0 [''f1'', ''f2''] connecting) ! 0) =
     [SendRealtimeInput ''f1'', SendRealtimeInput ''f2''] \<and>
   effects_since connecting
     (capture id 0 [''f3''] (event (settle 0 True) (capture id 0 [''f1'', ''f2''] connecting))) =
     [SessionSend 0 ''f1'', SessionSend 0 ''f2'', SessionSend 0 ''f3'']"
proof -
  have h: "0 < length (sessions connecting)" "p_state (sessions connecting ! 0) = Pending"
    "p_reactions (sessions connecting ! 0) = []" "microtasks connecting = []"
    by (simp_all add: connecting_eq)
  from frames_sent_in_capture_order [OF h, of id "[''f1'', ''f2'']" "[''f3'']"] h
  show ?thesis by simp
qed

text \<open>
  Claim C7 on the code. When the remote peer closes the connection of a listening
  component, the status becomes Disconnected, but no call stops the capture source and
  its refs stay set; the next frame is still handed to the closed session; and switching
  listening off afterwards changes nothing, since the status is no longer Connected.
\<close>

theorem remote_close_leaves_capture_running:
  "connectionStatus listening = Connected \<and>
   connectionStatus (event onClose listening) = Disconnected \<and>
   audioContextInputRef (event onClose listening) \<and>
   streamRef (event onClose listening) \<and>
   processorRef (event onClose listening) = Some 0 \<and>
   effects_since listening (event onClose listening) = [] \<and>
   effects_since listening (capture id 0 [''frame''] (event onClose listening)) =
     [SessionSend 0 ''frame''] \<and>
   event (toggleEffect True False) (event onClose listening) = event onClose listening"
  by (simp add: listening_eq event_def onClose_def toggleEffect_def onaudioprocess_def
      promise_then_def run_microtasks_def run_reaction_def emit_def effects_since_def)

section \<open>The active set and the node store\<close>

text \<open>Every handle of the active set is a node of the store when the component is
  mounted, and every handler and callback keeps it so.\<close>

lemma active_nodes_exist_mounted: "active_nodes_exist mounted"
  by (simp add: active_nodes_exist_def mounted_def)

lemma active_nodes_exist_flush: "active_nodes_exist (flush s)"
  by (simp add: active_nodes_exist_def flush_scheduler)

lemma active_nodes_exist_startSession:
  "active_nodes_exist (startSession granted s) = active_nodes_exist s"
  by (simp add: active_nodes_exist_def startSession_def emit_def Let_def)

lemma active_nodes_exist_kept:
  fixes s :: "('t::{linorder,plus,zero}, 'b) voiceAssistant"
  assumes "active_nodes_exist s"
  shows "active_nodes_exist (final (onMessage_begin s now m))"
    and "active_nodes_exist (final (onMessage_resume s m decoded))"
    and "active_nodes_exist (ended n s)"
    and "active_nodes_exist (stopAudio s)"
    and "active_nodes_exist (toggleEffect granted isListening s)"
    and "active_nodes_exist (unmountCleanup s)"
    and "active_nodes_exist (onOpen s)"
    and "active_nodes_exist (onError s)"
    and "active_nodes_exist (onClose s)"
    and "active_nodes_exist (onaudioprocess blob k f s)"
    and "active_nodes_exist (settle k ok s)"
    and "active_nodes_exist (run_microtasks s)"
proof -
  show "active_nodes_exist (final (onMessage_begin s now m))"
    using assms
    by (auto simp: onMessage_begin_def interruption_branch_def flush_scheduler
        Let_def active_nodes_exist_def transcription_branch_fields split: option.splits)
  show "active_nodes_exist (final (onMessage_resume s m decoded))"
  proof (cases decoded)
    case None
    with assms show ?thesis by (simp add: onMessage_resume_def)
  next
    case (Some d)
    show ?thesis
    proof (cases "interrupted m")
      case True
      then show ?thesis
        using Some
        by (simp add: onMessage_resume_def interruption_branch_def active_nodes_exist_flush
            Let_def)
    next
      case False
      from resume_schedules [OF this, of s d] assms Some show ?thesis
        by (auto simp: active_nodes_exist_def list_all_iff set_add_def)
    qed
  qed
  show "active_nodes_exist (ended n s)"
    using assms by (auto simp: active_nodes_exist_def list_all_iff ended_def set_delete_def)
  show "active_nodes_exist (stopAudio s)"
    by (simp add: active_nodes_exist_def stopAudio_scheduler)
  show "active_nodes_exist (toggleEffect granted isListening s)"
    using assms
    by (simp add: toggleEffect_def active_nodes_exist_startSession Let_def)
      (auto simp: active_nodes_exist_def stopAudio_scheduler promise_then_frame
        split: option.splits)
  show "active_nodes_exist (unmountCleanup s)"
    by (simp add: active_nodes_exist_def unmount_scheduler)
  show "active_nodes_exist (onOpen s)" "active_nodes_exist (onError s)"
    "active_nodes_exist (onClose s)"
    using assms by (simp_all add: active_nodes_exist_def onOpen_def onError_def onClose_def emit_def)
  show "active_nodes_exist (onaudioprocess blob k f s)"
    using assms by (simp add: active_nodes_exist_def onaudioprocess_def promise_then_frame)
  show "active_nodes_exist (settle k ok s)"
    using assms by (simp add: active_nodes_exist_def settle_def)
  show "active_nodes_exist (run_microtasks s)"
    using assms by (simp add: active_nodes_exist_def run_microtasks_frame)
qed

end
